theory Spec2Isabelle
  imports Main "HOL-Library.AList" "HOL-Library.Multiset" "HOL-Library.Sublist"
begin

section \<open>The blogger document model and publishing pipeline\<close>

text \<open>
  A shallow embedding of the Go package \<open>post\<close> (article model, front matter parser,
  article reader) and of the \<open>generate\<close> function of the command (classification of the
  parsed articles into views, sorting, tag index pages).

  Go strings are byte strings and are modelled as \<open>string\<close> (a list of bytes).
  A \<open>*bufio.Reader\<close> is modelled by the text that has not been read yet; every function
  that reads returns the text that is left. A Go \<open>map[string]string\<close> is an association
  list with distinct keys. A panic or an error return is a value \<open>Inl e\<close>.

  Functions of the Go standard library are not part of the repository. Those that work on
  bytes alone (\<open>ReadString\<close>, \<open>HasPrefix\<close>, \<open>HasSuffix\<close>, \<open>SplitN\<close>, \<open>Trim\<close> with
  a cutset of ASCII, \<open>TrimPrefix\<close>, \<open>Replace\<close>, \<open>Itoa\<close>, \<open>Sprintf\<close> with \<open>%02d\<close>,
  \<open>path.Join\<close>) are written out after their documentation. The others are parameters
  of the model: \<open>strings.ToLower\<close>, \<open>strings.FieldsFunc\<close> and \<open>unicode.IsSpace\<close>, which
  read a text as UTF-8 and consult the Unicode tables, \<open>sort.Sort\<close>, \<open>time.Parse\<close>,
  \<open>time.Now\<close>, the file system, the iteration order of a map and the Markdown renderer.
  What a proof needs of a parameter is a hypothesis that states its documentation.
\<close>

subsection \<open>Strings and readers\<close>

type_synonym reader = string

definition HasPrefix :: "string \<Rightarrow> string \<Rightarrow> bool" where
  "HasPrefix s p = (take (length p) s = p)"

definition TrimPrefix :: "string \<Rightarrow> string \<Rightarrow> string" where
  "TrimPrefix s p = (if HasPrefix s p then drop (length p) s else s)"

definition HasSuffix :: "string \<Rightarrow> string \<Rightarrow> bool" where
  "HasSuffix s p = (length p \<le> length s \<and> drop (length s - length p) s = p)"

text \<open>\<open>strings.Trim(s, cutset)\<close>: all leading and trailing bytes that occur in \<open>cutset\<close>
  are removed.\<close>

definition Trim :: "string \<Rightarrow> string \<Rightarrow> string" where
  "Trim s cutset =
     rev (dropWhile (\<lambda>c. c \<in> set cutset) (rev (dropWhile (\<lambda>c. c \<in> set cutset) s)))"

text \<open>\<open>strings.SplitN(line, ":", 2)\<close>: at most two pieces, split at the first colon.\<close>

definition SplitN_colon_2 :: "string \<Rightarrow> string list" where
  "SplitN_colon_2 line =
     (if CHR '':'' \<in> set line
      then [takeWhile (\<lambda>c. c \<noteq> CHR '':'') line, tl (dropWhile (\<lambda>c. c \<noteq> CHR '':'') line)]
      else [line])"

text \<open>\<open>reader.ReadString('\n')\<close>: the text up to and including the first newline, or, when
  there is none, all the text that is left together with the error \<open>io.EOF\<close>. The result
  is the line, whether the error is set, and the reader after the call.\<close>

definition ReadString :: "reader \<Rightarrow> string \<times> bool \<times> reader" where
  "ReadString r =
     (if CHR 0x0A \<in> set r
      then (takeWhile (\<lambda>c. c \<noteq> CHR 0x0A) r @ [CHR 0x0A], False,
            tl (dropWhile (\<lambda>c. c \<noteq> CHR 0x0A) r))
      else (r, True, []))"

text \<open>The lower case of a byte of ASCII.\<close>

definition toLower_byte :: "char \<Rightarrow> char" where
  "toLower_byte c =
     (if 65 \<le> (of_char c :: nat) \<and> (of_char c :: nat) \<le> 90
      then char_of ((of_char c :: nat) + 32) else c)"

definition is_ascii :: "char \<Rightarrow> bool" where
  "is_ascii c = ((of_char c :: nat) < 128)"

text \<open>\<open>strings.ToLower(s)\<close> \<open>returns s with all Unicode letters mapped to their lower
  case\<close>. Of a function \<open>toLower\<close> that stands for it the proofs use this much: the text
  is mapped character by character from the left; a byte of ASCII is a character of its
  own, mapped to its ASCII lower case; and, the hyphen being no letter, a text that
  begins with another character is not mapped to a text that begins with a hyphen.\<close>

definition lower_case_mapping :: "(string \<Rightarrow> string) \<Rightarrow> bool" where
  "lower_case_mapping toLower \<longleftrightarrow>
     toLower [] = [] \<and>
     (\<forall>c s. is_ascii c \<longrightarrow> toLower (c # s) = toLower_byte c # toLower s) \<and>
     (\<forall>c s. \<not> is_ascii c \<longrightarrow> \<not> HasPrefix (toLower (c # s)) ''-'')"

text \<open>A Unicode code point.\<close>

type_synonym rune = nat

subsection \<open>Errors\<close>

datatype error =
    InvalidFrontMatterHeader
  | InvalidArticleHeader
  | TimeParseError string string
  | NilPointerDereference
  | IndexOutOfRange
  | OpenError string

subsection \<open>ParseFrontMatter\<close>

type_synonym frontMatter = "(string \<times> string) list"

text \<open>The loop of \<open>ParseFrontMatter\<close>. \<open>data[key] = value\<close> replaces the value of a key that
  is there and adds the key otherwise.\<close>

function ParseFrontMatter_loop :: "frontMatter \<Rightarrow> reader \<Rightarrow> frontMatter \<times> reader" where
  "ParseFrontMatter_loop data r =
     (let line = fst (ReadString r); lineErr = fst (snd (ReadString r));
          r' = snd (snd (ReadString r))
      in if lineErr then (data, r')
         else if HasPrefix line ''---'' then (data, r')
         else (let values = SplitN_colon_2 line
               in if length values < 2 then ParseFrontMatter_loop data r'
                  else (let key = Trim (values ! 0) [CHR '' '', CHR 0x09, CHR 0x0D, CHR 0x0A];
                            value = Trim (values ! 1) [CHR '' '', CHR 0x09, CHR 0x0D, CHR 0x0A]
                        in ParseFrontMatter_loop (AList.update key value data) r')))"
  by pat_completeness auto

termination ParseFrontMatter_loop
proof (relation "measure (\<lambda>(data, r). length r)")
  show "wf (measure (\<lambda>(data, r). length r))"
    by simp
next
  fix data :: frontMatter and r :: reader and x xa xb xc
  assume "xa = fst (snd (ReadString r))" and "\<not> xa" and xb: "xb = snd (snd (ReadString r))"
  then have mem: "CHR 0x0A \<in> set r"
    by (auto simp: ReadString_def split: if_splits)
  then have "dropWhile (\<lambda>c. c \<noteq> CHR 0x0A) r \<noteq> []"
    by simp
  moreover have "length (dropWhile (\<lambda>c. c \<noteq> CHR 0x0A) r) \<le> length r"
    by (rule length_dropWhile_le)
  ultimately have "length xb < length r"
    using mem xb by (cases "dropWhile (\<lambda>c. c \<noteq> CHR 0x0A) r") (auto simp: ReadString_def)
  then show "((data, xb), (data, r)) \<in> measure (\<lambda>(data, r). length r)"
    by simp
  fix xd xe
  show "((AList.update xd xe data, xb), (data, r)) \<in> measure (\<lambda>(data, r). length r)"
    using \<open>length xb < length r\<close> by simp
qed

declare ParseFrontMatter_loop.simps [simp del]

definition ParseFrontMatter :: "reader \<Rightarrow> (error + frontMatter) \<times> reader" where
  "ParseFrontMatter r =
     (let line = fst (ReadString r); r' = snd (snd (ReadString r))
      in if \<not> HasPrefix line ''---'' then (Inl InvalidFrontMatterHeader, r')
         else (case ParseFrontMatter_loop [] r' of (data, r'') \<Rightarrow> (Inr data, r'')))"

text \<open>A header line in the words of the specification: a line with a colon is a key and
  a value, split at the first colon, both without the blanks, tabs, carriage returns
  and newlines around them; a line without a colon is no entry. \<open>record_entry\<close> writes
  the entry of a line into the map, and \<open>document\<close> is a text made of an opening line,
  header lines, a closing line (every line ended by a newline) and a body.\<close>

definition whitespace :: string where
  "whitespace = [CHR '' '', CHR 0x09, CHR 0x0D, CHR 0x0A]"

definition header_entry :: "string \<Rightarrow> (string \<times> string) option" where
  "header_entry l =
     (if CHR '':'' \<in> set l
      then Some (Trim (takeWhile (\<lambda>c. c \<noteq> CHR '':'') l) whitespace,
                 Trim (tl (dropWhile (\<lambda>c. c \<noteq> CHR '':'') l)) whitespace)
      else None)"

definition record_entry :: "frontMatter \<Rightarrow> string \<Rightarrow> frontMatter" where
  "record_entry data l =
     (case header_entry l of None \<Rightarrow> data | Some (k, v) \<Rightarrow> AList.update k v data)"

definition document :: "string \<Rightarrow> string list \<Rightarrow> string \<Rightarrow> string \<Rightarrow> string" where
  "document opening lines closing body =
     opening @ CHR 0x0A # concat (map (\<lambda>l. l @ [CHR 0x0A]) lines) @ closing @ CHR 0x0A # body"

subsection \<open>Tags\<close>

record Tag =
  Name :: string
  OriginalName :: string
  Hidden :: bool

text \<open>\<open>MakeTag\<close>; \<open>toLower\<close> is \<open>strings.ToLower\<close>.\<close>

definition MakeTag :: "(string \<Rightarrow> string) \<Rightarrow> string \<Rightarrow> Tag" where
  "MakeTag toLower tag =
     (let prepared = toLower tag;
          trimmed = TrimPrefix prepared ''-'';
          hidden = (trimmed \<noteq> prepared)
      in \<lparr>Name = trimmed, OriginalName = tag, Hidden = hidden\<rparr>)"

definition FileName :: "Tag \<Rightarrow> string" where
  "FileName t = (if Hidden t then concat [''_'', Name t] else Name t)"

subsection \<open>Time\<close>

text \<open>What the program reads of a \<open>time.Time\<close>: the instant (in nanoseconds since the
  zero time, which orders two times), and the year and the month of its calendar date.\<close>

record Time =
  instant :: int
  Year :: int
  Month :: int

definition Before :: "Time \<Rightarrow> Time \<Rightarrow> bool" where
  "Before t u = (instant t < instant u)"

text \<open>The value of \<open>new(time.Time)\<close>: January 1, year 1, 00:00:00 UTC.\<close>

definition zeroTime :: Time where
  "zeroTime = \<lparr>instant = 0, Year = 1, Month = 1\<rparr>"

definition DefaultDateFormat :: string where
  "DefaultDateFormat = ''2006-01-02T15:04:05Z07:00''"

definition IFTTTDateFormat :: string where
  "IFTTTDateFormat = ''January 02, 2006 at 03:04PM''"

subsection \<open>Decimal numbers\<close>

fun decimal :: "nat \<Rightarrow> string" where
  "decimal n =
     (if n < 10 then [char_of (48 + n)]
      else decimal (n div 10) @ [char_of (48 + n mod 10)])"

declare decimal.simps [simp del]

definition Itoa :: "int \<Rightarrow> string" where
  "Itoa i = (if i < 0 then CHR ''-'' # decimal (nat (- i)) else decimal (nat i))"

text \<open>\<open>fmt.Sprintf("%02d", v)\<close>: the decimal number, filled with zeros after the sign up
  to a width of two.\<close>

definition Sprintf_02d :: "int \<Rightarrow> string" where
  "Sprintf_02d v =
     (if v < 0 then CHR ''-'' # decimal (nat (- v))
      else replicate (2 - length (decimal (nat v))) CHR ''0'' @ decimal (nat v))"

subsection \<open>Slash-separated paths\<close>

text \<open>\<open>path.Clean\<close> and \<open>path.Join\<close> of the Go library, on the elements of a path:
  an empty element and \<open>.\<close> are dropped, \<open>..\<close> removes the element before it (at the
  start of a path that is not rooted it stays, at the root it is dropped), the empty
  path is \<open>.\<close>. \<open>path.Join\<close> ignores empty arguments, joins the others with slashes and
  cleans the result; when every argument is empty the result is empty.\<close>

fun split_slash :: "string \<Rightarrow> string list" where
  "split_slash [] = [[]]"
| "split_slash (c # cs) =
     (if c = CHR ''/'' then [] # split_slash cs
      else (case split_slash cs of [] \<Rightarrow> [[c]] | e # es \<Rightarrow> (c # e) # es))"

fun join_slash :: "string list \<Rightarrow> string" where
  "join_slash [] = []"
| "join_slash [e] = e"
| "join_slash (e # es) = e @ ''/'' @ join_slash es"

definition clean_elem :: "bool \<Rightarrow> string list \<Rightarrow> string \<Rightarrow> string list" where
  "clean_elem rooted out e =
     (if e = [] \<or> e = ''.'' then out
      else if e = ''..''
      then (if out \<noteq> [] \<and> last out \<noteq> ''..'' then butlast out
            else if rooted then out else out @ [''..''])
      else out @ [e])"

definition Clean :: "string \<Rightarrow> string" where
  "Clean p =
     (if p = [] then ''.''
      else (let rooted = (hd p = CHR ''/'');
                out = foldl (clean_elem rooted) [] (split_slash p)
            in if out = [] then (if rooted then ''/'' else ''.'')
               else (if rooted then ''/'' else []) @ join_slash out))"

definition path_Join :: "string list \<Rightarrow> string" where
  "path_Join elem =
     (if concat elem = [] then []
      else Clean (join_slash (filter (\<lambda>e. e \<noteq> []) elem)))"

subsection \<open>Articles\<close>

type_synonym PageType = string

definition Post :: PageType where
  "Post = ''Post''"

definition Page :: PageType where
  "Page = ''Page''"

definition Snippet :: PageType where
  "Snippet = ''Snippet''"

text \<open>The struct \<open>Article\<close>. A pointer that may be \<open>nil\<close> is an option; the field
  \<open>Snippet\<close> of the struct is \<open>Snippet_flag\<close> here, since \<open>Snippet\<close> is the page type.\<close>

record Article =
  Author :: string
  DateModified :: "Time option"
  DateUpdated :: "Time option"
  Title :: string
  Content :: string
  RawContent :: string
  Description :: string
  Filename :: string
  Link :: string
  Identifier :: string
  Snippet_flag :: bool
  Type :: PageType
  Draft :: bool
  Tags :: "Tag list"
  AppID :: string
  Meta :: "(string \<times> string) list option"

text \<open>The zero value \<open>Article{}\<close>.\<close>

definition Article_zero :: Article where
  "Article_zero =
     \<lparr>Author = [], DateModified = None, DateUpdated = None, Title = [], Content = [],
      RawContent = [], Description = [], Filename = [], Link = [], Identifier = [],
      Snippet_flag = False, Type = [], Draft = False, Tags = [], AppID = [], Meta = None\<rparr>"

definition HasTag :: "Article \<Rightarrow> string \<Rightarrow> bool" where
  "HasTag a aTag = (\<exists>tag \<in> set (Tags a). aTag = Name tag)"

definition VisibleTags :: "Article \<Rightarrow> Tag list" where
  "VisibleTags a = filter (\<lambda>tag. \<not> Hidden tag) (Tags a)"

text \<open>The last \<open>return\<close> of \<open>BasePath\<close> reads the date through the pointer.\<close>

definition datedPath :: "Article \<Rightarrow> error + string" where
  "datedPath a =
     (case DateModified a of
        None \<Rightarrow> Inl NilPointerDereference
      | Some d \<Rightarrow> Inr (path_Join [Itoa (Year d), Sprintf_02d (Month d)]))"

definition BasePath :: "Article \<Rightarrow> error + string" where
  "BasePath a =
     (if Type a = Post \<or> Type a = Snippet
      then (if Draft a then Inr ''drafts'' else datedPath a)
      else if Type a = Page then Inr []
      else datedPath a)"

definition FullPath :: "Article \<Rightarrow> error + string" where
  "FullPath a =
     (case BasePath a of
        Inl e \<Rightarrow> Inl e
      | Inr base \<Rightarrow> Inr (path_Join [base, Filename a]))"

text \<open>\<open>Articles\<close> is a slice of pointers to articles. No article is changed once its
  pointer is in a slice, so a slice is the list of the articles pointed to.\<close>

type_synonym Articles = "Article list"

definition Len :: "Articles \<Rightarrow> nat" where
  "Len a = length a"

definition Swap :: "Articles \<Rightarrow> nat \<Rightarrow> nat \<Rightarrow> error + Articles" where
  "Swap a i j =
     (if i < length a \<and> j < length a then Inr (a[i := a ! j, j := a ! i])
      else Inl IndexOutOfRange)"

definition Less :: "Articles \<Rightarrow> nat \<Rightarrow> nat \<Rightarrow> error + bool" where
  "Less a i j =
     (if i < length a \<and> j < length a
      then (case DateModified (a ! i) of
              None \<Rightarrow> Inl NilPointerDereference
            | Some left \<Rightarrow>
                (case DateModified (a ! j) of
                   None \<Rightarrow> Inl NilPointerDereference
                 | Some right \<Rightarrow> Inr (Before right left)))
      else Inl IndexOutOfRange)"

text \<open>\<open>sort.Sort(data)\<close> \<open>sorts data in ascending order as determined by the Less method\<close>;
  the sort is not guaranteed to be stable. For a function \<open>srt\<close> that stands for it on
  \<open>Articles\<close> this says: when no article lacks its date (so that \<open>Less\<close> does not panic),
  the slice afterwards holds the same pointers, and no element is \<open>Less\<close> than one that
  stands before it.\<close>

definition sorts_by_Less :: "(Articles \<Rightarrow> error + Articles) \<Rightarrow> bool" where
  "sorts_by_Less srt \<longleftrightarrow>
     (\<forall>data. list_all (\<lambda>a. DateModified a \<noteq> None) data \<longrightarrow>
        (\<exists>out. srt data = Inr out \<and> mset out = mset data \<and>
               (\<forall>i j. i < j \<and> j < Len out \<longrightarrow> Less out j i = Inr False)))"

text \<open>A \<open>range\<close> over a map visits every entry once, in an order of its own.\<close>

definition visits_once :: "('a list \<Rightarrow> 'a list) \<Rightarrow> bool" where
  "visits_once rng \<longleftrightarrow> (\<forall>m. mset (rng m) = mset m)"

subsection \<open>The environment of a run\<close>

text \<open>What the program takes from outside: the library functions \<open>strings.ToLower\<close>,
  \<open>strings.FieldsFunc\<close>, \<open>unicode.IsSpace\<close> and \<open>sort.Sort\<close> (on a value of type
  \<open>Articles\<close>; a panic of \<open>Less\<close> or \<open>Swap\<close> during the sort is its error), \<open>time.Parse\<close>
  (\<open>None\<close> when the value does not match the layout), the reading of the clock while the
  \<open>k\<close>-th source file is read, the order in which \<open>range\<close> visits the entries of a map,
  the content of the file at a path (or the error of \<open>os.Open\<close>), the Markdown renderer
  and the flags \<open>-extension\<close> and \<open>-root\<close>.\<close>

record Env =
  strings_ToLower :: "string \<Rightarrow> string"
  strings_FieldsFunc :: "string \<Rightarrow> (rune \<Rightarrow> bool) \<Rightarrow> string list"
  unicode_IsSpace :: "rune \<Rightarrow> bool"
  sort_Sort :: "Articles \<Rightarrow> error + Articles"
  time_Parse :: "string \<Rightarrow> string \<Rightarrow> Time option"
  time_Now :: "nat \<Rightarrow> Time"
  range_order :: "(string \<times> string) list \<Rightarrow> (string \<times> string) list"
  range_tags :: "(string \<times> bool) list \<Rightarrow> (string \<times> bool) list"
  os_Open :: "string \<Rightarrow> error + string"
  Markdown :: "string \<Rightarrow> string"
  destinationExt :: string
  siteRoot :: string

subsection \<open>ReadArticle\<close>

text \<open>The two layouts are tried in turn; the error is the one of the second attempt.\<close>

definition parseDate :: "Env \<Rightarrow> string \<Rightarrow> error + Time" where
  "parseDate env dateStr =
     (case time_Parse env DefaultDateFormat dateStr of
        Some modTime \<Rightarrow> Inr modTime
      | None \<Rightarrow>
          (case time_Parse env IFTTTDateFormat dateStr of
             Some modTime \<Rightarrow> Inr modTime
           | None \<Rightarrow> Inl (TimeParseError IFTTTDateFormat dateStr)))"

text \<open>The closure \<open>fieldsFunc\<close> of \<open>ReadArticle\<close>.\<close>

definition fieldsFunc :: "Env \<Rightarrow> rune \<Rightarrow> bool" where
  "fieldsFunc env divider =
     (unicode_IsSpace env divider \<or> divider = of_char (CHR '','') \<or> divider = of_char (CHR '';''))"

text \<open>The body of the loop over the front matter, for one key and its value.\<close>

definition ReadArticle_field :: "Env \<Rightarrow> Article \<Rightarrow> string \<Rightarrow> string \<Rightarrow> error + Article" where
  "ReadArticle_field env article key value =
     (if HasPrefix key ''meta-''
      then Inr (article\<lparr>Meta :=
                  Some (AList.update (TrimPrefix key ''meta-'') value
                          (case Meta article of None \<Rightarrow> [] | Some m \<Rightarrow> m))\<rparr>)
      else if key = ''title'' then Inr (article\<lparr>Title := value\<rparr>)
      else if key = ''author'' then Inr (article\<lparr>Author := value\<rparr>)
      else if key = ''description'' then Inr (article\<lparr>Description := value\<rparr>)
      else if key = ''link'' then Inr (article\<lparr>Link := value\<rparr>)
      else if key = ''date''
      then (case parseDate env value of
              Inl timeErr \<Rightarrow> Inl timeErr
            | Inr modTime \<Rightarrow> Inr (article\<lparr>DateModified := Some modTime\<rparr>))
      else if key = ''updated''
      then (case parseDate env value of
              Inl timeErr \<Rightarrow> Inl timeErr
            | Inr modTime \<Rightarrow> Inr (article\<lparr>DateUpdated := Some modTime\<rparr>))
      else if key = ''appid'' then Inr (article\<lparr>AppID := value\<rparr>)
      else if key = ''draft'' then Inr (article\<lparr>Draft := (value = ''true'')\<rparr>)
      else if key = ''type''
      then (if value = ''Post'' then Inr (article\<lparr>Type := Post\<rparr>)
            else if value = ''Page'' then Inr (article\<lparr>Type := Page\<rparr>)
            else if value = ''Snippet'' then Inr (article\<lparr>Type := Snippet\<rparr>)
            else Inr article)
      else if key = ''tags''
      then Inr (article\<lparr>Tags := Tags article @
                  map (MakeTag (strings_ToLower env))
                    (strings_FieldsFunc env value (fieldsFunc env))\<rparr>)
      else Inr article)"

fun ReadArticle_loop :: "Env \<Rightarrow> Article \<Rightarrow> (string \<times> string) list \<Rightarrow> error + Article" where
  "ReadArticle_loop env article [] = Inr article"
| "ReadArticle_loop env article ((key, value) # rest) =
     (case ReadArticle_field env article key value of
        Inl e \<Rightarrow> Inl e
      | Inr article' \<Rightarrow> ReadArticle_loop env article' rest)"

text \<open>\<open>ReadArticle\<close>, with \<open>now\<close> the value of \<open>time.Now()\<close>. With an error the program
  returns the article as far as it was filled; every caller drops it, and so does the
  model. \<open>reader.WriteTo\<close> reads all that is left.\<close>

definition ReadArticle :: "Env \<Rightarrow> Time \<Rightarrow> reader \<Rightarrow> (error + Article) \<times> reader" where
  "ReadArticle env now r =
     (case ParseFrontMatter r of
        (Inl matterErr, r') \<Rightarrow> (Inl InvalidArticleHeader, r')
      | (Inr frontMatter, r') \<Rightarrow>
          (case ReadArticle_loop env Article_zero (range_order env frontMatter) of
             Inl e \<Rightarrow> (Inl e, r')
           | Inr article \<Rightarrow>
               (Inr ((if DateModified article = None
                      then article\<lparr>DateModified := Some now\<rparr> else article)
                     \<lparr>RawContent := r'\<rparr>), [])))"

subsection \<open>The run: classification into views\<close>

text \<open>A source file found by the walk over the post directories (\<open>Name\<close>, \<open>Extension\<close>
  and \<open>Path\<close> of the struct \<open>PostFile\<close>).\<close>

record PostFile =
  pf_Name :: string
  pf_Extension :: string
  pf_Path :: string

text \<open>The two warnings of the loop over the source files, with the path and the error.\<close>

datatype log_entry =
    SkippingOpen string error
  | SkippingParse string error

record Views =
  articles :: Articles
  indexArticles :: Articles
  feedArticles :: Articles
  snippetArticles :: Articles
  logged :: "log_entry list"

definition Views_empty :: Views where
  "Views_empty =
     \<lparr>articles = [], indexArticles = [], feedArticles = [], snippetArticles = [],
      logged = []\<rparr>"

text \<open>The end of the loop body, from \<open>articles = append(articles, &article)\<close> on; it is
  the same text in \<open>generate\<close> and in the older \<open>main\<close>.\<close>

definition classify :: "Article \<Rightarrow> Views \<Rightarrow> Views" where
  "classify article st =
     (let st1 = st\<lparr>articles := articles st @ [article]\<rparr>
      in if Type article = Page then st1
         else if Draft article then st1
         else (let st2 = (if Type article = Post
                          then st1\<lparr>feedArticles := feedArticles st1 @ [article]\<rparr> else st1);
                   st3 = (if Type article = Snippet
                          then st2\<lparr>snippetArticles := snippetArticles st2 @ [article]\<rparr>
                          else st2)
               in st3\<lparr>indexArticles := indexArticles st3 @ [article]\<rparr>))"

text \<open>The body of the loop of \<open>generate\<close> for the \<open>k\<close>-th source file.\<close>

definition generate_sourceFile :: "Env \<Rightarrow> nat \<Rightarrow> PostFile \<Rightarrow> Views \<Rightarrow> Views" where
  "generate_sourceFile env k sourceFile st =
     (case os_Open env (pf_Path sourceFile) of
        Inl fileError \<Rightarrow>
          st\<lparr>logged := logged st @ [SkippingOpen (pf_Path sourceFile) fileError]\<rparr>
      | Inr file \<Rightarrow>
          (case fst (ReadArticle env (time_Now env k) file) of
             Inl readErr \<Rightarrow>
               st\<lparr>logged := logged st @ [SkippingParse (pf_Path sourceFile) readErr]\<rparr>
           | Inr article \<Rightarrow>
               (let article1 = article\<lparr>Content := Markdown env (RawContent article)\<rparr>;
                    article2 = article1\<lparr>Filename := pf_Name sourceFile @ destinationExt env\<rparr>;
                    article3 = (if DateModified article2 = None
                                then article2\<lparr>DateModified := Some zeroTime\<rparr>
                                else article2);
                    article4 = article3\<lparr>Identifier := pf_Name sourceFile\<rparr>
                in classify article4 st)))"

fun generate_loop :: "Env \<Rightarrow> nat \<Rightarrow> PostFile list \<Rightarrow> Views \<Rightarrow> Views" where
  "generate_loop env k [] st = st"
| "generate_loop env k (sourceFile # rest) st =
     generate_loop env (Suc k) rest (generate_sourceFile env k sourceFile st)"

subsection \<open>The run: pages\<close>

text \<open>The map \<open>tags\<close> of \<open>generate\<close>. The loop writes \<open>tags[tag] = true\<close> for every tag of
  every article; the key is the name of the tag, the text that \<open>HasTag\<close> compares.\<close>

fun collectTags :: "Articles \<Rightarrow> (string \<times> bool) list \<Rightarrow> (string \<times> bool) list" where
  "collectTags [] tags = tags"
| "collectTags (article # rest) tags =
     collectTags rest (foldl (\<lambda>m tag. AList.update (Name tag) True m) tags (Tags article))"

text \<open>The destination of the page of every article, relative to the destination
  directory.\<close>

fun articleFiles :: "Articles \<Rightarrow> error + (string \<times> Article) list" where
  "articleFiles [] = Inr []"
| "articleFiles (article # rest) =
     (case FullPath article of
        Inl e \<Rightarrow> Inl e
      | Inr destinationFileName \<Rightarrow>
          (case articleFiles rest of
             Inl e \<Rightarrow> Inl e
           | Inr files \<Rightarrow> Inr ((destinationFileName, article) # files)))"

text \<open>The index page of a tag: the tag, the name of the file, and the articles.\<close>

definition tagIndex :: "Env \<Rightarrow> Articles \<Rightarrow> string \<Rightarrow> string \<times> string \<times> Articles" where
  "tagIndex env index tag =
     (tag, ''tag-'' @ tag @ destinationExt env, filter (\<lambda>article. HasTag article tag) index)"

text \<open>What a run produces: the four sorted views, the file of every article, the index
  page of every tag, and the warnings. Rendering through the templates and writing the
  files are outside the model.\<close>

record Site =
  All :: Articles
  Index :: Articles
  Feed :: Articles
  SnippetFeed :: Articles
  ArticleFiles :: "(string \<times> Article) list"
  TagIndexes :: "(string \<times> string \<times> Articles) list"
  Warnings :: "log_entry list"

definition generate :: "Env \<Rightarrow> PostFile list \<Rightarrow> error + Site" where
  "generate env sourceFiles =
     (let st = generate_loop env 0 sourceFiles Views_empty
      in case sort_Sort env (articles st) of
           Inl e \<Rightarrow> Inl e
         | Inr sortedArticles \<Rightarrow>
        (case sort_Sort env (indexArticles st) of
           Inl e \<Rightarrow> Inl e
         | Inr sortedIndex \<Rightarrow>
        (case sort_Sort env (feedArticles st) of
           Inl e \<Rightarrow> Inl e
         | Inr sortedFeed \<Rightarrow>
        (case sort_Sort env (snippetArticles st) of
           Inl e \<Rightarrow> Inl e
         | Inr sortedSnippets \<Rightarrow>
        (case articleFiles sortedArticles of
           Inl e \<Rightarrow> Inl e
         | Inr files \<Rightarrow>
             Inr \<lparr>All = sortedArticles, Index = sortedIndex, Feed = sortedFeed,
                  SnippetFeed = sortedSnippets, ArticleFiles = files,
                  TagIndexes =
                    map (\<lambda>(tag, present). tagIndex env sortedIndex tag)
                      (range_tags env (collectTags sortedArticles [])),
                  Warnings = logged st\<rparr>)))))"

subsection \<open>The older main\<close>

text \<open>\<open>strings.Replace(s, old, new, -1)\<close> for a text \<open>old\<close> that is not empty.\<close>

fun Replace :: "string \<Rightarrow> string \<Rightarrow> string \<Rightarrow> string" where
  "Replace [] old new = []"
| "Replace (c # cs) old new =
     (if old \<noteq> [] \<and> HasPrefix (c # cs) old
      then new @ Replace (drop (length old - 1) cs) old new
      else c # Replace cs old new)"

text \<open>The loop body of the older \<open>main\<close>, after \<open>ReadArticle\<close> has returned \<open>article\<close>
  (any error before that ends the process there). Here a source file whose name ends
  in \<open>draft\<close> makes the article a draft.\<close>

definition main_sourceFile :: "Env \<Rightarrow> PostFile \<Rightarrow> Article \<Rightarrow> Views \<Rightarrow> Views" where
  "main_sourceFile env sourceFile article st =
     (let article1 = article\<lparr>Filename := pf_Name sourceFile @ destinationExt env\<rparr>;
          article2 = article1\<lparr>Description := Replace (Description article1) ''$SITEROOT'' (siteRoot env)\<rparr>;
          article3 = article2\<lparr>Content := Replace (Content article2) ''$SITEROOT'' (siteRoot env)\<rparr>;
          article4 = (if DateModified article3 = None
                      then article3\<lparr>DateModified := Some zeroTime\<rparr> else article3);
          article5 = article4\<lparr>Identifier := pf_Name sourceFile\<rparr>;
          article6 = (if HasSuffix (pf_Name sourceFile) ''draft''
                      then article5\<lparr>Draft := True\<rparr> else article5)
      in classify article6 st)"

fun main_loop :: "Env \<Rightarrow> (PostFile \<times> Article) list \<Rightarrow> Views \<Rightarrow> Views" where
  "main_loop env [] st = st"
| "main_loop env ((sourceFile, article) # rest) st =
     main_loop env rest (main_sourceFile env sourceFile article st)"

subsection \<open>Notions of the statements\<close>




text \<open>The date of an article that has one, and the order of the views: no article
  stands before one whose date is later.\<close>

definition date_of :: "Article \<Rightarrow> Time" where
  "date_of a = (case DateModified a of None \<Rightarrow> zeroTime | Some d \<Rightarrow> d)"

definition most_recent_first :: "Articles \<Rightarrow> bool" where
  "most_recent_first v = sorted_wrt (\<lambda>a b. \<not> Before (date_of a) (date_of b)) v"

text \<open>What the loop of \<open>generate\<close> does to the article that \<open>ReadArticle\<close> returned for the
  source file \<open>sourceFile\<close>, before the article is appended to the views.\<close>

definition prepared :: "Env \<Rightarrow> PostFile \<Rightarrow> Article \<Rightarrow> Article" where
  "prepared env sourceFile article =
     (let article1 = article\<lparr>Content := Markdown env (RawContent article)\<rparr>;
          article2 = article1\<lparr>Filename := pf_Name sourceFile @ destinationExt env\<rparr>;
          article3 = (if DateModified article2 = None
                      then article2\<lparr>DateModified := Some zeroTime\<rparr>
                      else article2)
      in article3\<lparr>Identifier := pf_Name sourceFile\<rparr>)"

text \<open>The articles that a run reads: for every source file, in turn, that can be opened
  and parsed, the article of \<open>ReadArticle\<close>, prepared as above; \<open>k\<close> counts the files.\<close>

fun parsed :: "Env \<Rightarrow> nat \<Rightarrow> PostFile list \<Rightarrow> Articles" where
  "parsed env k [] = []"
| "parsed env k (sourceFile # rest) =
     (case os_Open env (pf_Path sourceFile) of
        Inl fileError \<Rightarrow> parsed env (Suc k) rest
      | Inr file \<Rightarrow>
          (case fst (ReadArticle env (time_Now env k) file) of
             Inl readErr \<Rightarrow> parsed env (Suc k) rest
           | Inr article \<Rightarrow> prepared env sourceFile article # parsed env (Suc k) rest))"

text \<open>The warnings of a run, in the same way.\<close>

fun warnings :: "Env \<Rightarrow> nat \<Rightarrow> PostFile list \<Rightarrow> log_entry list" where
  "warnings env k [] = []"
| "warnings env k (sourceFile # rest) =
     (case os_Open env (pf_Path sourceFile) of
        Inl fileError \<Rightarrow> SkippingOpen (pf_Path sourceFile) fileError # warnings env (Suc k) rest
      | Inr file \<Rightarrow>
          (case fst (ReadArticle env (time_Now env k) file) of
             Inl readErr \<Rightarrow> SkippingParse (pf_Path sourceFile) readErr # warnings env (Suc k) rest
           | Inr article \<Rightarrow> warnings env (Suc k) rest))"

text \<open>What the loop of the older \<open>main\<close> does to the article of a source file before the
  article is appended to the views.\<close>

definition main_prepared :: "Env \<Rightarrow> PostFile \<Rightarrow> Article \<Rightarrow> Article" where
  "main_prepared env sourceFile article =
     (let article1 = article\<lparr>Filename := pf_Name sourceFile @ destinationExt env\<rparr>;
          article2 = article1\<lparr>Description := Replace (Description article1) ''$SITEROOT'' (siteRoot env)\<rparr>;
          article3 = article2\<lparr>Content := Replace (Content article2) ''$SITEROOT'' (siteRoot env)\<rparr>;
          article4 = (if DateModified article3 = None
                      then article3\<lparr>DateModified := Some zeroTime\<rparr> else article3);
          article5 = article4\<lparr>Identifier := pf_Name sourceFile\<rparr>
      in if HasSuffix (pf_Name sourceFile) ''draft'' then article5\<lparr>Draft := True\<rparr> else article5)"

text \<open>The order that the claim on sorting words: an article with a later date than
  another article of the view stands before it.\<close>

definition later_first :: "Articles \<Rightarrow> bool" where
  "later_first v =
     (\<forall>i j. i < length v \<and> j < length v \<and> Before (date_of (v ! j)) (date_of (v ! i)) \<longrightarrow> i < j)"

subsection \<open>The library on a short slice and on a text of ASCII\<close>

text \<open>A sample run needs functions for the parameters. On a text of ASCII,
  \<open>strings.ToLower\<close>, \<open>unicode.IsSpace\<close> and \<open>strings.FieldsFunc\<close> are the following
  functions on bytes (\<open>cur\<close> is the field being read). On a short slice \<open>sort.Sort\<close> is
  the insertion sort of the library, which works through \<open>Less\<close> and \<open>Swap\<close>:
  \<^verbatim>\<open>for i := a + 1; i < b; i++ {
    for j := i; j > a && data.Less(j, j-1); j-- { data.Swap(j, j-1) } }\<close>\<close>

definition ascii_ToLower :: "string \<Rightarrow> string" where
  "ascii_ToLower s = map toLower_byte s"

definition ascii_IsSpace :: "rune \<Rightarrow> bool" where
  "ascii_IsSpace r = (r \<in> set [9, 10, 11, 12, 13, 32])"

fun fields_from :: "(rune \<Rightarrow> bool) \<Rightarrow> string \<Rightarrow> string \<Rightarrow> string list" where
  "fields_from f cur [] = (if cur = [] then [] else [cur])"
| "fields_from f cur (c # cs) =
     (if f (of_char c)
      then (if cur = [] then fields_from f [] cs else cur # fields_from f [] cs)
      else fields_from f (cur @ [c]) cs)"

definition ascii_FieldsFunc :: "string \<Rightarrow> (rune \<Rightarrow> bool) \<Rightarrow> string list" where
  "ascii_FieldsFunc s f = fields_from f [] s"

fun insertionSort_inner :: "Articles \<Rightarrow> nat \<Rightarrow> error + Articles" where
  "insertionSort_inner data 0 = Inr data"
| "insertionSort_inner data (Suc j) =
     (case Less data (Suc j) j of
        Inl e \<Rightarrow> Inl e
      | Inr isLess \<Rightarrow>
          if isLess
          then (case Swap data (Suc j) j of
                  Inl e \<Rightarrow> Inl e
                | Inr data' \<Rightarrow> insertionSort_inner data' j)
          else Inr data)"

function insertionSort :: "Articles \<Rightarrow> nat \<Rightarrow> nat \<Rightarrow> error + Articles" where
  "insertionSort data i b =
     (if i < b
      then (case insertionSort_inner data i of
              Inl e \<Rightarrow> Inl e
            | Inr data' \<Rightarrow> insertionSort data' (Suc i) b)
      else Inr data)"
  by pat_completeness auto

termination insertionSort
  by (relation "measure (\<lambda>(data, i, b). b - i)") auto

declare insertionSort.simps [simp del]

definition short_Sort :: "Articles \<Rightarrow> error + Articles" where
  "short_Sort data = insertionSort data 1 (Len data)"

text \<open>Where the inner loop puts the element \<open>x\<close> that follows the part \<open>before\<close>; the part
  is given from its end, the element next to \<open>x\<close> first.\<close>

fun inserted :: "Article \<Rightarrow> Articles \<Rightarrow> Articles" where
  "inserted x [] = [x]"
| "inserted x (y # before) =
     (if Before (date_of y) (date_of x) then y # inserted x before else x # y # before)"

subsection \<open>A sample run\<close>

text \<open>Concrete inputs, on which the theorems below are instantiated and the program is
  evaluated: a header, the times that the source files mention, the source files, and
  an environment whose \<open>time.Parse\<close> knows these times, whose maps are visited in the
  order of insertion and whose Markdown renderer returns its input.\<close>

definition sample_header :: "string list" where
  "sample_header =
     [''title: Hello World'', ''no colon here'', '' title : Second: try '',
      ''tags: golang, -secret'']"

definition jan15 :: Time where
  "jan15 = \<lparr>instant = 1705312800, Year = 2024, Month = 1\<rparr>"

definition feb10 :: Time where
  "feb10 = \<lparr>instant = 1707552000, Year = 2024, Month = 2\<rparr>"

definition mar01 :: Time where
  "mar01 = \<lparr>instant = 1709285400, Year = 2024, Month = 3\<rparr>"

definition year999 :: Time where
  "year999 = \<lparr>instant = - 30610224000, Year = 999, Month = 12\<rparr>"

definition sample_Parse :: "string \<Rightarrow> string \<Rightarrow> Time option" where
  "sample_Parse layout v =
     (if layout = DefaultDateFormat \<and> v = ''2024-01-15T10:00:00Z'' then Some jan15
      else if layout = IFTTTDateFormat \<and> v = ''February 10, 2024 at 08:00AM'' then Some feb10
      else if layout = DefaultDateFormat \<and> v = ''2024-03-01T09:30:00Z'' then Some mar01
      else if layout = DefaultDateFormat \<and> v = ''0999-12-01T00:00:00Z'' then Some year999
      else None)"

definition sample_Now :: "nat \<Rightarrow> Time" where
  "sample_Now k = \<lparr>instant = 1717200000 + int k, Year = 2024, Month = 6\<rparr>"


definition hello_md :: string where
  "hello_md = document ''---''
     [''title: Hello'', ''type: Post'', ''date: 2024-01-15T10:00:00Z'', ''tags: Go, -wip'']
     ''---'' ''Hello.''"

definition note_md :: string where
  "note_md = document ''---''
     [''title: Note'', ''date: 2024-03-01T09:30:00Z'', ''tags: go'']
     ''---'' ''No type.''"

definition about_md :: string where
  "about_md = document ''---''
     [''title: About'', ''type: Page'', ''tags: site'']
     ''---'' ''A page.''"

definition plan_md :: string where
  "plan_md = document ''---''
     [''title: Plan'', ''type: Post'', ''draft: true'', ''tags: roadmap'']
     ''---'' ''A draft.''"

definition snip_md :: string where
  "snip_md = document ''---''
     [''type: Snippet'', ''date: February 10, 2024 at 08:00AM'', ''tags: go'']
     ''---'' ''Short.''"

definition bad_md :: string where
  "bad_md = document ''---''
     [''title: Bad'', ''type: Post'', ''date: yesterday'']
     ''---'' ''Lost.''"

definition sample_disk :: "(string \<times> string) list" where
  "sample_disk =
     [(''posts/hello.md'', hello_md), (''posts/note.md'', note_md),
      (''posts/about.md'', about_md), (''posts/plan.md'', plan_md),
      (''posts/snip.md'', snip_md), (''posts/bad.md'', bad_md)]"

definition sample_Open :: "string \<Rightarrow> error + string" where
  "sample_Open p = (case map_of sample_disk p of None \<Rightarrow> Inl (OpenError p) | Some text \<Rightarrow> Inr text)"

definition sample_env :: Env where
  "sample_env =
     \<lparr>strings_ToLower = ascii_ToLower, strings_FieldsFunc = ascii_FieldsFunc,
      unicode_IsSpace = ascii_IsSpace, sort_Sort = short_Sort,
      time_Parse = sample_Parse, time_Now = sample_Now,
      range_order = (\<lambda>m. m), range_tags = (\<lambda>m. m),
      os_Open = sample_Open, Markdown = (\<lambda>s. s),
      destinationExt = ''.html'', siteRoot = ''/''\<rparr>"

definition sample_file :: "string \<Rightarrow> PostFile" where
  "sample_file n = \<lparr>pf_Name = n, pf_Extension = ''.md'', pf_Path = ''posts/'' @ n @ ''.md''\<rparr>"

definition sample_files :: "PostFile list" where
  "sample_files = map sample_file [''hello'', ''note'', ''bad'', ''about'', ''gone'', ''plan'', ''snip'']"

definition typed_files :: "PostFile list" where
  "typed_files = map sample_file [''hello'', ''about'', ''plan'', ''snip'']"

definition untyped_md :: string where
  "untyped_md = document ''---'' [''title: Lower'', ''type: post''] ''---'' ''Not a type.''"

section \<open>Properties\<close>

subsection \<open>Tags\<close>

lemma toLower_byte_dash: "toLower_byte c = CHR ''-'' \<longleftrightarrow> c = CHR ''-''"
proof
  assume a: "toLower_byte c = CHR ''-''"
  show "c = CHR ''-''"
  proof (cases "65 \<le> (of_char c :: nat) \<and> (of_char c :: nat) \<le> 90")
    case True
    then have "toLower_byte c = char_of ((of_char c :: nat) + 32)"
      by (simp add: toLower_byte_def)
    with a have "(of_char (char_of ((of_char c :: nat) + 32)) :: nat) = of_char (CHR ''-'')"
      by simp
    moreover have "(of_char (char_of ((of_char c :: nat) + 32)) :: nat) = of_char c + 32"
      using True by (simp add: of_char_of)
    ultimately show ?thesis using True by simp
  next
    case False
    with a show ?thesis by (simp add: toLower_byte_def)
  qed
next
  assume "c = CHR ''-''"
  then show "toLower_byte c = CHR ''-''"
    by (simp add: toLower_byte_def)
qed

lemma HasPrefix_dash: "HasPrefix s ''-'' \<longleftrightarrow> (s \<noteq> [] \<and> hd s = CHR ''-'')"
  by (cases s) (auto simp: HasPrefix_def)

lemma is_ascii_dash: "is_ascii (CHR ''-'')"
  by (simp add: is_ascii_def)

text \<open>A lower case mapping keeps a hyphen at the start, and puts none there.\<close>

lemma lower_case_dash:
  assumes "lower_case_mapping toLower"
  shows "HasPrefix (toLower tag) ''-'' \<longleftrightarrow> HasPrefix tag ''-''"
proof (cases tag)
  case Nil
  with assms show ?thesis
    by (simp add: lower_case_mapping_def HasPrefix_def)
next
  case (Cons c s)
  show ?thesis
  proof (cases "is_ascii c")
    case True
    with assms have "toLower (c # s) = toLower_byte c # toLower s"
      by (simp add: lower_case_mapping_def)
    with Cons show ?thesis
      by (simp add: HasPrefix_dash toLower_byte_dash)
  next
    case False
    with assms have "\<not> HasPrefix (toLower (c # s)) ''-''"
      by (simp add: lower_case_mapping_def)
    moreover from False have "c \<noteq> CHR ''-''"
      using is_ascii_dash by auto
    ultimately show ?thesis
      using Cons by (simp add: HasPrefix_dash)
  qed
qed

lemma lower_case_strip:
  assumes "lower_case_mapping toLower"
  shows "TrimPrefix (toLower tag) ''-'' = toLower (TrimPrefix tag ''-'')"
proof (cases "HasPrefix tag ''-''")
  case True
  then obtain s where tag: "tag = CHR ''-'' # s"
    by (cases tag) (auto simp: HasPrefix_dash)
  from assms have "toLower (CHR ''-'' # s) = toLower_byte (CHR ''-'') # toLower s"
    using is_ascii_dash by (simp add: lower_case_mapping_def)
  then have "toLower tag = CHR ''-'' # toLower s"
    using tag by (simp add: toLower_byte_def)
  then show ?thesis
    using tag by (simp add: TrimPrefix_def HasPrefix_def)
next
  case False
  then have "\<not> HasPrefix (toLower tag) ''-''"
    using lower_case_dash [OF assms] by simp
  with False show ?thesis
    by (simp add: TrimPrefix_def)
qed

lemma lower_case_ascii:
  assumes "lower_case_mapping toLower"
  shows "list_all is_ascii s \<Longrightarrow> toLower s = map toLower_byte s"
proof (induction s)
  case Nil
  from assms show ?case by (simp add: lower_case_mapping_def)
next
  case (Cons c s)
  from Cons.prems have "is_ascii c" by simp
  with assms have "toLower (c # s) = toLower_byte c # toLower s"
    by (simp add: lower_case_mapping_def)
  with Cons show ?case by simp
qed

text \<open>On bytes that are not ASCII the sample function does nothing; on the others it
  is what the library does, and it is a lower case mapping in the sense above.\<close>

lemma ascii_ToLower_mapping: "lower_case_mapping ascii_ToLower"
proof -
  have "\<not> HasPrefix (ascii_ToLower (c # s)) ''-''" if "\<not> is_ascii c" for c s
  proof -
    from that have "c \<noteq> CHR ''-''" using is_ascii_dash by auto
    then show ?thesis
      by (simp add: ascii_ToLower_def HasPrefix_dash toLower_byte_dash)
  qed
  then show ?thesis
    by (simp add: lower_case_mapping_def ascii_ToLower_def)
qed

text \<open>
  Claim C5. For every tag token, \<open>MakeTag\<close> gives the tag whose name is the token in
  lower case (the lower case of \<open>strings.ToLower\<close>) without a leading \<open>-\<close>, whose hidden
  flag holds exactly when the token begins with \<open>-\<close>, and whose original text is the
  token itself. For a token of ASCII the name is, byte by byte, the lower case of the
  token without its leading \<open>-\<close>. The token \<open>-Golang\<close> gives the hidden tag \<open>golang\<close>, the
  token \<open>Golang\<close> the visible tag \<open>golang\<close>.
\<close>

theorem MakeTag_normalizes:
  assumes "lower_case_mapping toLower"
  shows "Name (MakeTag toLower tag) = toLower (if HasPrefix tag ''-'' then drop 1 tag else tag)
   \<and> Name (MakeTag toLower tag)
       = (if HasPrefix tag ''-'' then drop 1 (toLower tag) else toLower tag)
   \<and> (list_all is_ascii tag \<longrightarrow>
        Name (MakeTag toLower tag)
          = map toLower_byte (if HasPrefix tag ''-'' then drop 1 tag else tag))
   \<and> Hidden (MakeTag toLower tag) = HasPrefix tag ''-''
   \<and> OriginalName (MakeTag toLower tag) = tag
   \<and> MakeTag toLower ''-Golang''
       = \<lparr>Name = ''golang'', OriginalName = ''-Golang'', Hidden = True\<rparr>
   \<and> MakeTag toLower ''Golang''
       = \<lparr>Name = ''golang'', OriginalName = ''Golang'', Hidden = False\<rparr>"
proof -
  let ?stripped = "if HasPrefix tag ''-'' then drop 1 tag else tag"
  have strip: "TrimPrefix s ''-'' = (if HasPrefix s ''-'' then drop 1 s else s)" for s
    by (simp add: TrimPrefix_def)
  have name: "Name (MakeTag toLower tag) = TrimPrefix (toLower tag) ''-''"
    by (simp add: MakeTag_def Let_def)
  have n1: "Name (MakeTag toLower tag) = toLower ?stripped"
    using name lower_case_strip [OF assms, of tag] strip [of tag] by simp
  have n2: "Name (MakeTag toLower tag)
      = (if HasPrefix tag ''-'' then drop 1 (toLower tag) else toLower tag)"
    using name strip [of "toLower tag"] lower_case_dash [OF assms, of tag] by simp
  have n3: "Name (MakeTag toLower tag) = map toLower_byte ?stripped" if a: "list_all is_ascii tag"
  proof -
    from a have "list_all is_ascii ?stripped"
      by (auto simp: list_all_iff dest: in_set_dropD)
    then show ?thesis
      using n1 lower_case_ascii [OF assms, of ?stripped] by simp
  qed
  have h: "Hidden (MakeTag toLower tag) = HasPrefix tag ''-''"
  proof (cases "HasPrefix tag ''-''")
    case True
    then have "HasPrefix (toLower tag) ''-''"
      using lower_case_dash [OF assms, of tag] by simp
    then have "toLower tag \<noteq> []"
      by (simp add: HasPrefix_dash)
    then have "drop 1 (toLower tag) \<noteq> toLower tag"
      by (cases "toLower tag") (auto dest: arg_cong [where f = length])
    with \<open>HasPrefix (toLower tag) ''-''\<close> True show ?thesis
      by (simp add: MakeTag_def TrimPrefix_def Let_def)
  next
    case False
    then have "\<not> HasPrefix (toLower tag) ''-''"
      using lower_case_dash [OF assms, of tag] by simp
    with False show ?thesis
      by (simp add: MakeTag_def TrimPrefix_def Let_def)
  qed
  have o: "OriginalName (MakeTag toLower tag) = tag"
    by (simp add: MakeTag_def Let_def)
  have l1: "toLower ''-Golang'' = ''-golang''"
  proof -
    have "list_all is_ascii ''-Golang''" by (simp add: is_ascii_def)
    then have "toLower ''-Golang'' = map toLower_byte ''-Golang''"
      by (rule lower_case_ascii [OF assms])
    also have "\<dots> = ''-golang''" by code_simp
    finally show ?thesis .
  qed
  have l2: "toLower ''Golang'' = ''golang''"
  proof -
    have "list_all is_ascii ''Golang''" by (simp add: is_ascii_def)
    then have "toLower ''Golang'' = map toLower_byte ''Golang''"
      by (rule lower_case_ascii [OF assms])
    also have "\<dots> = ''golang''" by code_simp
    finally show ?thesis .
  qed
  have e1: "MakeTag toLower ''-Golang''
      = \<lparr>Name = ''golang'', OriginalName = ''-Golang'', Hidden = True\<rparr>"
    by (simp add: MakeTag_def Let_def TrimPrefix_def HasPrefix_def l1)
  have e2: "MakeTag toLower ''Golang''
      = \<lparr>Name = ''golang'', OriginalName = ''Golang'', Hidden = False\<rparr>"
    by (simp add: MakeTag_def Let_def TrimPrefix_def HasPrefix_def l2)
  from n1 n2 n3 h o e1 e2 show ?thesis by blast
qed

theorem MakeTag_normalizes_witness:
  "list_all is_ascii ''-ABCDEFGHIJKLMNOPQRSTUVWXYZ@[`{09 az''
   \<and> MakeTag ascii_ToLower ''-ABCDEFGHIJKLMNOPQRSTUVWXYZ@[`{09 az''
       = \<lparr>Name = ''abcdefghijklmnopqrstuvwxyz@[`{09 az'',
          OriginalName = ''-ABCDEFGHIJKLMNOPQRSTUVWXYZ@[`{09 az'', Hidden = True\<rparr>
   \<and> MakeTag ascii_ToLower ''Rust-Lang''
       = \<lparr>Name = ''rust-lang'', OriginalName = ''Rust-Lang'', Hidden = False\<rparr>
   \<and> Name (MakeTag ascii_ToLower ''--X'') = ''-x''
   \<and> MakeTag ascii_ToLower ''-Golang''
       = \<lparr>Name = ''golang'', OriginalName = ''-Golang'', Hidden = True\<rparr>"
proof -
  have a: "list_all is_ascii ''-ABCDEFGHIJKLMNOPQRSTUVWXYZ@[`{09 az''"
    by (simp add: is_ascii_def)
  have m: "map toLower_byte ''ABCDEFGHIJKLMNOPQRSTUVWXYZ@[`{09 az''
      = ''abcdefghijklmnopqrstuvwxyz@[`{09 az''"
    by code_simp
  have p: "HasPrefix ''-ABCDEFGHIJKLMNOPQRSTUVWXYZ@[`{09 az'' ''-''"
    by (simp add: HasPrefix_def)
  have r: "MakeTag ascii_ToLower ''Rust-Lang''
      = \<lparr>Name = ''rust-lang'', OriginalName = ''Rust-Lang'', Hidden = False\<rparr>"
    by code_simp
  have x: "Name (MakeTag ascii_ToLower ''--X'') = ''-x''"
    by code_simp
  have d: "(if HasPrefix ''-ABCDEFGHIJKLMNOPQRSTUVWXYZ@[`{09 az'' ''-''
             then drop 1 ''-ABCDEFGHIJKLMNOPQRSTUVWXYZ@[`{09 az''
             else ''-ABCDEFGHIJKLMNOPQRSTUVWXYZ@[`{09 az'')
      = ''ABCDEFGHIJKLMNOPQRSTUVWXYZ@[`{09 az''"
    using p by simp
  note t = MakeTag_normalizes [OF ascii_ToLower_mapping,
      of "''-ABCDEFGHIJKLMNOPQRSTUVWXYZ@[`{09 az''"]
  from t a have "Name (MakeTag ascii_ToLower ''-ABCDEFGHIJKLMNOPQRSTUVWXYZ@[`{09 az'')
      = map toLower_byte
          (if HasPrefix ''-ABCDEFGHIJKLMNOPQRSTUVWXYZ@[`{09 az'' ''-''
           then drop 1 ''-ABCDEFGHIJKLMNOPQRSTUVWXYZ@[`{09 az''
           else ''-ABCDEFGHIJKLMNOPQRSTUVWXYZ@[`{09 az'')"
    by blast
  then have n: "Name (MakeTag ascii_ToLower ''-ABCDEFGHIJKLMNOPQRSTUVWXYZ@[`{09 az'')
      = ''abcdefghijklmnopqrstuvwxyz@[`{09 az''"
    by (simp only: d m)
  from t p have h: "Hidden (MakeTag ascii_ToLower ''-ABCDEFGHIJKLMNOPQRSTUVWXYZ@[`{09 az'')"
    by blast
  from t have o: "OriginalName (MakeTag ascii_ToLower ''-ABCDEFGHIJKLMNOPQRSTUVWXYZ@[`{09 az'')
      = ''-ABCDEFGHIJKLMNOPQRSTUVWXYZ@[`{09 az''"
    by blast
  have full: "MakeTag ascii_ToLower ''-ABCDEFGHIJKLMNOPQRSTUVWXYZ@[`{09 az''
      = \<lparr>Name = ''abcdefghijklmnopqrstuvwxyz@[`{09 az'',
         OriginalName = ''-ABCDEFGHIJKLMNOPQRSTUVWXYZ@[`{09 az'', Hidden = True\<rparr>"
    using n h o by (cases "MakeTag ascii_ToLower ''-ABCDEFGHIJKLMNOPQRSTUVWXYZ@[`{09 az''") simp
  from t have g: "MakeTag ascii_ToLower ''-Golang''
      = \<lparr>Name = ''golang'', OriginalName = ''-Golang'', Hidden = True\<rparr>"
    by simp
  from a full r x g show ?thesis by blast
qed

subsection \<open>ParseFrontMatter\<close>

lemma ReadString_line:
  "CHR 0x0A \<notin> set l \<Longrightarrow> ReadString (l @ CHR 0x0A # rest) = (l @ [CHR 0x0A], False, rest)"
proof -
  assume "CHR 0x0A \<notin> set l"
  then have "\<forall>x \<in> set l. x \<noteq> CHR 0x0A" by auto
  then show ?thesis
    by (simp add: ReadString_def takeWhile_append2 dropWhile_append2)
qed

lemma HasPrefix_prefix: "HasPrefix s p = prefix p s"
proof
  assume "HasPrefix s p"
  then have "take (length p) s = p" by (simp add: HasPrefix_def)
  then show "prefix p s" by (metis take_is_prefix)
next
  assume "prefix p s"
  then obtain t where "s = p @ t" by (auto simp: prefix_def)
  then show "HasPrefix s p" by (simp add: HasPrefix_def)
qed

lemma HasPrefix_line:
  assumes "CHR 0x0A \<notin> set l"
  shows "HasPrefix (l @ CHR 0x0A # rest) ''---'' = HasPrefix l ''---''"
proof
  assume "HasPrefix (l @ CHR 0x0A # rest) ''---''"
  then have "prefix ''---'' l \<or> (\<exists>us. ''---'' = l @ us \<and> prefix us (CHR 0x0A # rest))"
    by (simp only: HasPrefix_prefix prefix_append)
  then show "HasPrefix l ''---''"
  proof
    assume "prefix ''---'' l"
    then show ?thesis by (simp only: HasPrefix_prefix)
  next
    assume "\<exists>us. ''---'' = l @ us \<and> prefix us (CHR 0x0A # rest)"
    then obtain us where us: "''---'' = l @ us" "prefix us (CHR 0x0A # rest)" by blast
    show ?thesis
    proof (cases us)
      case Nil
      with us show ?thesis by (simp add: HasPrefix_def)
    next
      case (Cons u us')
      with us(2) have "u = CHR 0x0A" by simp
      with Cons have "CHR 0x0A \<in> set (l @ us)" by simp
      with us(1) have "CHR 0x0A \<in> set ''---''" by simp
      then show ?thesis by simp
    qed
  qed
next
  assume "HasPrefix l ''---''"
  then show "HasPrefix (l @ CHR 0x0A # rest) ''---''"
    by (simp only: HasPrefix_prefix prefix_append) simp
qed

lemma Trim_newline:
  "Trim (v @ [CHR 0x0A]) whitespace = Trim v whitespace"
proof (cases "\<forall>c \<in> set v. c \<in> set whitespace")
  case True
  then have "\<forall>x \<in> set (v @ [CHR 0x0A]). x \<in> set whitespace"
    by (simp add: whitespace_def)
  then have "dropWhile (\<lambda>c. c \<in> set whitespace) (v @ [CHR 0x0A]) = []"
    by (simp only: dropWhile_eq_Nil_conv)
  moreover from True have "dropWhile (\<lambda>c. c \<in> set whitespace) v = []"
    by (simp only: dropWhile_eq_Nil_conv)
  ultimately show ?thesis by (simp only: Trim_def)
next
  case False
  then have "dropWhile (\<lambda>c. c \<in> set whitespace) (v @ [CHR 0x0A])
      = dropWhile (\<lambda>c. c \<in> set whitespace) v @ [CHR 0x0A]"
    by (auto simp: dropWhile_append1)
  then show ?thesis by (simp add: Trim_def whitespace_def)
qed

lemma loop_header_line:
  assumes "CHR 0x0A \<notin> set l" and "\<not> HasPrefix l ''---''"
  shows "ParseFrontMatter_loop data (l @ CHR 0x0A # rest) = ParseFrontMatter_loop (record_entry data l) rest"
proof (cases "CHR '':'' \<in> set l")
  case True
  have tw: "takeWhile (\<lambda>c. c \<noteq> CHR '':'') (l @ [CHR 0x0A]) = takeWhile (\<lambda>c. c \<noteq> CHR '':'') l"
    using True by (simp add: takeWhile_append1)
  have dw: "tl (dropWhile (\<lambda>c. c \<noteq> CHR '':'') (l @ [CHR 0x0A])) = tl (dropWhile (\<lambda>c. c \<noteq> CHR '':'') l) @ [CHR 0x0A]"
    using True by (auto simp: dropWhile_append1)
  show ?thesis
    using assms True
    by (subst ParseFrontMatter_loop.simps)
       (simp add: ReadString_line HasPrefix_line [where rest = "[]", simplified] SplitN_colon_2_def
          Let_def record_entry_def header_entry_def tw dw
          Trim_newline [unfolded whitespace_def] whitespace_def)
next
  case False
  show ?thesis
    using assms False
    by (subst ParseFrontMatter_loop.simps)
       (simp add: ReadString_line HasPrefix_line [where rest = "[]", simplified] SplitN_colon_2_def
          Let_def record_entry_def header_entry_def)
qed

lemma loop_closing_line:
  assumes "CHR 0x0A \<notin> set c" and "HasPrefix c ''---''"
  shows "ParseFrontMatter_loop data (c @ CHR 0x0A # rest) = (data, rest)"
  using assms
  by (subst ParseFrontMatter_loop.simps)
     (simp add: ReadString_line HasPrefix_line [where rest = "[]", simplified] Let_def)

lemma loop_header:
  assumes "\<forall>l \<in> set lines. CHR 0x0A \<notin> set l \<and> \<not> HasPrefix l ''---''"
      and "CHR 0x0A \<notin> set c" and "HasPrefix c ''---''"
  shows "ParseFrontMatter_loop data (concat (map (\<lambda>l. l @ [CHR 0x0A]) lines) @ c @ CHR 0x0A # body)
         = (foldl record_entry data lines, body)"
  using assms
proof (induction lines arbitrary: data)
  case Nil
  then show ?case by (simp add: loop_closing_line)
next
  case (Cons l lines)
  then show ?case by (simp add: loop_header_line)
qed

lemma ParseFrontMatter_wellformed:
  assumes "CHR 0x0A \<notin> set opening" and "HasPrefix opening ''---''"
      and "\<forall>l \<in> set lines. CHR 0x0A \<notin> set l \<and> \<not> HasPrefix l ''---''"
      and "CHR 0x0A \<notin> set c" and "HasPrefix c ''---''"
  shows "ParseFrontMatter (opening @ CHR 0x0A # concat (map (\<lambda>l. l @ [CHR 0x0A]) lines) @ c @ CHR 0x0A # body)
         = (Inr (foldl record_entry [] lines), body)"
  using assms
  by (simp add: ParseFrontMatter_def ReadString_line HasPrefix_line [where rest = "[]", simplified]
        loop_header Let_def)


lemma map_of_record_entry:
  "map_of (record_entry data l) =
     (case header_entry l of None \<Rightarrow> map_of data | Some (k, v) \<Rightarrow> (map_of data)(k \<mapsto> v))"
  by (simp add: record_entry_def update_conv' split: option.splits)

lemma map_of_record_entries:
  "map_of (foldl record_entry data lines) = map_of data ++ map_of (rev (List.map_filter header_entry lines))"
proof (induction lines arbitrary: data)
  case Nil
  then show ?case by (simp add: map_filter_simps)
next
  case (Cons l lines)
  have step: "map_of (foldl record_entry data (l # lines))
      = map_of (record_entry data l) ++ map_of (rev (List.map_filter header_entry lines))"
    using Cons [of "record_entry data l"] by simp
  show ?case
  proof (rule ext)
    fix x
    show "map_of (foldl record_entry data (l # lines)) x
        = (map_of data ++ map_of (rev (List.map_filter header_entry (l # lines)))) x"
      unfolding step
      by (cases "header_entry l")
         (auto simp: map_of_record_entry map_filter_simps map_add_def split: option.splits)
  qed
qed

lemma distinct_record_entries:
  "distinct (map fst data) \<Longrightarrow> distinct (map fst (foldl record_entry data lines))"
proof (induction lines arbitrary: data)
  case Nil
  then show ?case by simp
next
  case (Cons l lines)
  have "distinct (map fst (record_entry data l))"
    using Cons.prems by (simp add: record_entry_def distinct_update split: option.splits)
  then show ?case using Cons.IH by simp
qed

lemma record_entries_colon:
  "foldl record_entry data (filter (\<lambda>l. CHR '':'' \<in> set l) lines) = foldl record_entry data lines"
  by (induction lines arbitrary: data) (simp_all add: record_entry_def header_entry_def)

lemma HasPrefix_ReadString: "HasPrefix (fst (ReadString r)) ''---'' = HasPrefix r ''---''"
proof (cases "CHR 0x0A \<in> set r")
  case True
  define l where "l = takeWhile (\<lambda>c. c \<noteq> CHR 0x0A) r"
  have l: "CHR 0x0A \<notin> set l"
    unfolding l_def by (auto dest: set_takeWhileD)
  have "dropWhile (\<lambda>c. c \<noteq> CHR 0x0A) r \<noteq> []" using True by simp
  moreover have "hd (dropWhile (\<lambda>c. c \<noteq> CHR 0x0A) r) = CHR 0x0A"
    using True hd_dropWhile [of "\<lambda>c. c \<noteq> CHR 0x0A" r] by simp
  ultimately have "dropWhile (\<lambda>c. c \<noteq> CHR 0x0A) r = CHR 0x0A # tl (dropWhile (\<lambda>c. c \<noteq> CHR 0x0A) r)"
    by (cases "dropWhile (\<lambda>c. c \<noteq> CHR 0x0A) r") auto
  then have r: "r = l @ CHR 0x0A # tl (dropWhile (\<lambda>c. c \<noteq> CHR 0x0A) r)"
    unfolding l_def by (metis takeWhile_dropWhile_id)
  have "fst (ReadString r) = l @ CHR 0x0A # []"
    using True by (simp add: ReadString_def l_def)
  then have "HasPrefix (fst (ReadString r)) ''---'' = HasPrefix l ''---''"
    using HasPrefix_line [OF l] by simp
  also have "\<dots> = HasPrefix r ''---''"
    using HasPrefix_line [OF l, of "tl (dropWhile (\<lambda>c. c \<noteq> CHR 0x0A) r)"] r by simp
  finally show ?thesis .
next
  case False
  then show ?thesis by (simp add: ReadString_def)
qed

text \<open>
  Claim C7. Take a text made of an opening delimiter line, header lines none of which
  begins with \<open>---\<close>, a closing delimiter line and a body. \<open>ParseFrontMatter\<close> stops
  after the closing line and leaves exactly the body unread. Each header line with a
  colon is split at its first colon, key and value are trimmed, and the pair is
  recorded; looking a key up gives the value of the last line with that key. A line
  without a colon is ignored: taking such lines out changes nothing, and no error is
  returned.
\<close>

theorem ParseFrontMatter_records_header:
  assumes "CHR 0x0A \<notin> set opening" and "HasPrefix opening ''---''"
      and "\<forall>l \<in> set lines. CHR 0x0A \<notin> set l \<and> \<not> HasPrefix l ''---''"
      and "CHR 0x0A \<notin> set closing" and "HasPrefix closing ''---''"
  shows "snd (ParseFrontMatter (document opening lines closing body)) = body
       \<and> (\<exists>data. fst (ParseFrontMatter (document opening lines closing body)) = Inr data
              \<and> distinct (map fst data)
              \<and> map_of data = map_of (rev (List.map_filter header_entry lines)))
       \<and> ParseFrontMatter (document opening (filter (\<lambda>l. CHR '':'' \<in> set l) lines) closing body)
           = ParseFrontMatter (document opening lines closing body)"
proof -
  have p: "ParseFrontMatter (document opening lines closing body) = (Inr (foldl record_entry [] lines), body)"
    unfolding document_def using assms by (rule ParseFrontMatter_wellformed)
  have "\<forall>l \<in> set (filter (\<lambda>l. CHR '':'' \<in> set l) lines). CHR 0x0A \<notin> set l \<and> \<not> HasPrefix l ''---''"
    using assms(3) by simp
  with assms have "ParseFrontMatter (document opening (filter (\<lambda>l. CHR '':'' \<in> set l) lines) closing body)
      = (Inr (foldl record_entry [] (filter (\<lambda>l. CHR '':'' \<in> set l) lines)), body)"
    unfolding document_def by (intro ParseFrontMatter_wellformed)
  then have q: "ParseFrontMatter (document opening (filter (\<lambda>l. CHR '':'' \<in> set l) lines) closing body)
      = ParseFrontMatter (document opening lines closing body)"
    by (simp only: p record_entries_colon)
  have d: "distinct (map fst (foldl record_entry [] lines))"
    by (rule distinct_record_entries) simp
  have m: "map_of (foldl record_entry [] lines) = map_of (rev (List.map_filter header_entry lines))"
    by (simp add: map_of_record_entries)
  from p q d m show ?thesis by simp
qed

theorem ParseFrontMatter_records_header_witness:
  "CHR 0x0A \<notin> set ''---'' \<and> HasPrefix ''---'' ''---''
   \<and> list_all (\<lambda>l. CHR 0x0A \<notin> set l \<and> \<not> HasPrefix l ''---'') sample_header
   \<and> snd (ParseFrontMatter (document ''---'' sample_header ''---'' ''# Hi'')) = ''# Hi''
   \<and> (\<exists>data. fst (ParseFrontMatter (document ''---'' sample_header ''---'' ''# Hi'')) = Inr data
          \<and> distinct (map fst data)
          \<and> map_of data = map_of (rev (List.map_filter header_entry sample_header)))
   \<and> ParseFrontMatter (document ''---'' (filter (\<lambda>l. CHR '':'' \<in> set l) sample_header) ''---'' ''# Hi'')
       = ParseFrontMatter (document ''---'' sample_header ''---'' ''# Hi'')
   \<and> ParseFrontMatter (document ''---'' sample_header ''---'' ''# Hi'')
       = (Inr [(''title'', ''Second: try''), (''tags'', ''golang, -secret'')], ''# Hi'')"
proof -
  have h1: "CHR 0x0A \<notin> set ''---''" by simp
  have h2: "HasPrefix ''---'' ''---''" by (simp add: HasPrefix_def)
  have h3: "\<forall>l \<in> set sample_header. CHR 0x0A \<notin> set l \<and> \<not> HasPrefix l ''---''"
    by (simp add: sample_header_def HasPrefix_def)
  have v: "ParseFrontMatter (document ''---'' sample_header ''---'' ''# Hi'')
      = (Inr [(''title'', ''Second: try''), (''tags'', ''golang, -secret'')], ''# Hi'')"
    by code_simp
  have h3': "list_all (\<lambda>l. CHR 0x0A \<notin> set l \<and> \<not> HasPrefix l ''---'') sample_header"
    using h3 by (simp only: list_all_iff)
  from h1 h2 h3' v ParseFrontMatter_records_header [OF h1 h2 h3 h1 h2, of "''# Hi''"]
  show ?thesis by blast
qed

text \<open>
  Claim C10. \<open>ParseFrontMatter\<close> recognizes a delimiter by its first three characters.
  It returns the error of a malformed header exactly when the text does not begin with
  \<open>---\<close>, so an opening line \<open>---\<close> followed by any text is accepted. In the header
  a line that begins with \<open>---\<close>, whatever follows on it (a key and a value, say), ends
  the header: the rest of the text is the body, and the result is the one of the same
  text with bare \<open>---\<close> lines.
\<close>

theorem ParseFrontMatter_delimiter_by_prefix:
  assumes "CHR 0x0A \<notin> set t1" and "CHR 0x0A \<notin> set t2"
      and "\<forall>l \<in> set lines. CHR 0x0A \<notin> set l \<and> \<not> HasPrefix l ''---''"
  shows "(fst (ParseFrontMatter r) = Inl InvalidFrontMatterHeader) = (\<not> HasPrefix r ''---'')
       \<and> (\<exists>data. fst (ParseFrontMatter (''---'' @ t1 @ CHR 0x0A # rest)) = Inr data)
       \<and> snd (ParseFrontMatter (document (''---'' @ t1) lines (''---'' @ t2) body)) = body
       \<and> ParseFrontMatter (document (''---'' @ t1) lines (''---'' @ t2) body)
           = ParseFrontMatter (document ''---'' lines ''---'' body)"
proof -
  have a: "(fst (ParseFrontMatter r) = Inl InvalidFrontMatterHeader) = (\<not> HasPrefix r ''---'')"
    by (simp add: ParseFrontMatter_def HasPrefix_ReadString Let_def split: prod.splits)
  have "HasPrefix (''---'' @ t1 @ CHR 0x0A # rest) ''---''"
    by (simp add: HasPrefix_def)
  then have b: "\<exists>data. fst (ParseFrontMatter (''---'' @ t1 @ CHR 0x0A # rest)) = Inr data"
    by (simp add: ParseFrontMatter_def HasPrefix_ReadString Let_def split: prod.splits)
  have o: "CHR 0x0A \<notin> set (''---'' @ t1)" "HasPrefix (''---'' @ t1) ''---''"
    and c: "CHR 0x0A \<notin> set (''---'' @ t2)" "HasPrefix (''---'' @ t2) ''---''"
    using assms by (simp_all add: HasPrefix_def)
  have p: "ParseFrontMatter (document (''---'' @ t1) lines (''---'' @ t2) body)
      = (Inr (foldl record_entry [] lines), body)"
    unfolding document_def using o(1) o(2) assms(3) c(1) c(2) by (rule ParseFrontMatter_wellformed)
  have "CHR 0x0A \<notin> set ''---''" "HasPrefix ''---'' ''---''"
    by (simp_all add: HasPrefix_def)
  then have q: "ParseFrontMatter (document ''---'' lines ''---'' body)
      = (Inr (foldl record_entry [] lines), body)"
    unfolding document_def using assms(3) by (intro ParseFrontMatter_wellformed)
  from a b p q show ?thesis by simp
qed

theorem ParseFrontMatter_delimiter_by_prefix_witness:
  "CHR 0x0A \<notin> set '' yaml'' \<and> CHR 0x0A \<notin> set ''key: value''
   \<and> list_all (\<lambda>l. CHR 0x0A \<notin> set l \<and> \<not> HasPrefix l ''---'') sample_header
   \<and> (fst (ParseFrontMatter ''--- yaml'') = Inl InvalidFrontMatterHeader) = (\<not> HasPrefix ''--- yaml'' ''---'')
   \<and> (\<exists>data. fst (ParseFrontMatter (''---'' @ '' yaml'' @ CHR 0x0A # ''a: b'')) = Inr data)
   \<and> snd (ParseFrontMatter (document (''---'' @ '' yaml'') sample_header (''---'' @ ''key: value'') ''# Hi'')) = ''# Hi''
   \<and> ParseFrontMatter (document (''---'' @ '' yaml'') sample_header (''---'' @ ''key: value'') ''# Hi'')
       = ParseFrontMatter (document ''---'' sample_header ''---'' ''# Hi'')
   \<and> ParseFrontMatter (document ''--- yaml'' sample_header ''---key: value'' ''# Hi'')
       = (Inr [(''title'', ''Second: try''), (''tags'', ''golang, -secret'')], ''# Hi'')"
proof -
  have h1: "CHR 0x0A \<notin> set '' yaml''" by simp
  have h2: "CHR 0x0A \<notin> set ''key: value''" by simp
  have h3: "\<forall>l \<in> set sample_header. CHR 0x0A \<notin> set l \<and> \<not> HasPrefix l ''---''"
    by (simp add: sample_header_def HasPrefix_def)
  have v: "ParseFrontMatter (document ''--- yaml'' sample_header ''---key: value'' ''# Hi'')
      = (Inr [(''title'', ''Second: try''), (''tags'', ''golang, -secret'')], ''# Hi'')"
    by code_simp
  have h3': "list_all (\<lambda>l. CHR 0x0A \<notin> set l \<and> \<not> HasPrefix l ''---'') sample_header"
    using h3 by (simp only: list_all_iff)
  from h1 h2 h3' v
    ParseFrontMatter_delimiter_by_prefix [OF h1 h2 h3, of "''--- yaml''" "''a: b''" "''# Hi''"]
  show ?thesis by blast
qed

subsection \<open>Output paths\<close>





























subsection \<open>What \<open>ReadArticle\<close> does with the header\<close>

lemma parseDate_cases:
  "parseDate env v =
     (case time_Parse env DefaultDateFormat v of
        Some t \<Rightarrow> Inr t
      | None \<Rightarrow>
          (case time_Parse env IFTTTDateFormat v of
             Some t \<Rightarrow> Inr t
           | None \<Rightarrow> Inl (TimeParseError IFTTTDateFormat v)))"
  by (simp add: parseDate_def)

lemma parseDate_error:
  "parseDate env v = Inl e \<Longrightarrow>
     e = TimeParseError IFTTTDateFormat v \<and> time_Parse env DefaultDateFormat v = None
     \<and> time_Parse env IFTTTDateFormat v = None"
  by (auto simp: parseDate_def split: option.splits)

lemma parseDate_unparseable:
  "time_Parse env DefaultDateFormat v = None \<Longrightarrow> time_Parse env IFTTTDateFormat v = None \<Longrightarrow>
     parseDate env v = Inl (TimeParseError IFTTTDateFormat v)"
  by (simp add: parseDate_def)

lemma not_meta:
  "\<not> HasPrefix ''date'' ''meta-''" "\<not> HasPrefix ''updated'' ''meta-''"
  "\<not> HasPrefix ''type'' ''meta-''" "\<not> HasPrefix ''draft'' ''meta-''"
  by (simp_all add: HasPrefix_def)

lemma field_date:
  "ReadArticle_field env a ''date'' v =
     (case parseDate env v of
        Inl e \<Rightarrow> Inl e
      | Inr t \<Rightarrow> Inr (a\<lparr>DateModified := Some t\<rparr>))"
  by (simp add: ReadArticle_field_def not_meta)

lemma field_updated:
  "ReadArticle_field env a ''updated'' v =
     (case parseDate env v of
        Inl e \<Rightarrow> Inl e
      | Inr t \<Rightarrow> Inr (a\<lparr>DateUpdated := Some t\<rparr>))"
  by (simp add: ReadArticle_field_def not_meta)

lemma field_type:
  "ReadArticle_field env a ''type'' v =
     Inr (if v = ''Post'' \<or> v = ''Page'' \<or> v = ''Snippet'' then a\<lparr>Type := v\<rparr> else a)"
  by (simp add: ReadArticle_field_def not_meta Post_def Page_def Snippet_def)

lemma field_draft:
  "ReadArticle_field env a ''draft'' v = Inr (a\<lparr>Draft := (v = ''true'')\<rparr>)"
  by (simp add: ReadArticle_field_def not_meta)

lemma field_other_date:
  assumes "k \<noteq> ''date''" and "ReadArticle_field env a k v = Inr a'"
  shows "DateModified a' = DateModified a"
  using assms by (auto simp: ReadArticle_field_def split: if_splits sum.splits)

lemma field_other_type:
  assumes "k \<noteq> ''type''" and "ReadArticle_field env a k v = Inr a'"
  shows "Type a' = Type a"
  using assms by (auto simp: ReadArticle_field_def split: if_splits sum.splits)

lemma field_other_draft:
  assumes "k \<noteq> ''draft''" and "ReadArticle_field env a k v = Inr a'"
  shows "Draft a' = Draft a"
  using assms by (auto simp: ReadArticle_field_def split: if_splits sum.splits)

lemma field_error:
  assumes "ReadArticle_field env a k v = Inl e"
  shows "(k = ''date'' \<or> k = ''updated'') \<and> parseDate env v = Inl e"
  using assms by (auto simp: ReadArticle_field_def split: if_splits sum.splits)

text \<open>The loop over a header in which no key stands twice.\<close>

lemma loop_date:
  assumes "distinct (map fst kvs)" and "ReadArticle_loop env a kvs = Inr a'"
  shows "case map_of kvs ''date'' of
           None \<Rightarrow> DateModified a' = DateModified a
         | Some v \<Rightarrow> \<exists>t. parseDate env v = Inr t \<and> DateModified a' = Some t"
  using assms
proof (induction kvs arbitrary: a)
  case Nil
  then show ?case by simp
next
  case (Cons kv kvs)
  obtain k v where kv: "kv = (k, v)" by (cases kv)
  from Cons.prems(2) obtain a1 where
    a1: "ReadArticle_field env a k v = Inr a1" and rest: "ReadArticle_loop env a1 kvs = Inr a'"
    by (auto simp: kv split: sum.splits)
  have ih: "case map_of kvs ''date'' of
           None \<Rightarrow> DateModified a' = DateModified a1
         | Some v \<Rightarrow> \<exists>t. parseDate env v = Inr t \<and> DateModified a' = Some t"
    using Cons.IH [OF _ rest] Cons.prems(1) by simp
  show ?case
  proof (cases "k = ''date''")
    case True
    with Cons.prems(1) kv have "''date'' \<notin> fst ` set kvs" by auto
    then have none: "map_of kvs ''date'' = None"
      by (simp add: map_of_eq_None_iff)
    with ih have same: "DateModified a' = DateModified a1" by simp
    from a1 True obtain t where "parseDate env v = Inr t" and "a1 = a\<lparr>DateModified := Some t\<rparr>"
      by (auto simp: field_date split: sum.splits)
    with same True kv show ?thesis by simp
  next
    case False
    then have "DateModified a1 = DateModified a"
      using a1 by (rule field_other_date)
    with ih False kv show ?thesis
      by (simp split: option.splits)
  qed
qed

lemma loop_type:
  assumes "distinct (map fst kvs)" and "ReadArticle_loop env a kvs = Inr a'"
  shows "Type a' =
     (case map_of kvs ''type'' of
        None \<Rightarrow> Type a
      | Some v \<Rightarrow> if v = ''Post'' \<or> v = ''Page'' \<or> v = ''Snippet'' then v else Type a)"
  using assms
proof (induction kvs arbitrary: a)
  case Nil
  then show ?case by simp
next
  case (Cons kv kvs)
  obtain k v where kv: "kv = (k, v)" by (cases kv)
  from Cons.prems(2) obtain a1 where
    a1: "ReadArticle_field env a k v = Inr a1" and rest: "ReadArticle_loop env a1 kvs = Inr a'"
    by (auto simp: kv split: sum.splits)
  have ih: "Type a' =
     (case map_of kvs ''type'' of
        None \<Rightarrow> Type a1
      | Some v \<Rightarrow> if v = ''Post'' \<or> v = ''Page'' \<or> v = ''Snippet'' then v else Type a1)"
    using Cons.IH [OF _ rest] Cons.prems(1) by simp
  show ?case
  proof (cases "k = ''type''")
    case True
    with Cons.prems(1) kv have "''type'' \<notin> fst ` set kvs" by auto
    then have none: "map_of kvs ''type'' = None"
      by (simp add: map_of_eq_None_iff)
    with ih have same: "Type a' = Type a1" by simp
    from a1 True have "a1 = (if v = ''Post'' \<or> v = ''Page'' \<or> v = ''Snippet'' then a\<lparr>Type := v\<rparr> else a)"
      by (simp add: field_type)
    then have "Type a1 = (if v = ''Post'' \<or> v = ''Page'' \<or> v = ''Snippet'' then v else Type a)"
      by simp
    with same True kv show ?thesis by simp
  next
    case False
    then have "Type a1 = Type a"
      using a1 by (rule field_other_type)
    with ih False kv show ?thesis
      by (simp split: option.splits)
  qed
qed

lemma loop_draft:
  assumes "distinct (map fst kvs)" and "ReadArticle_loop env a kvs = Inr a'"
  shows "Draft a' = (case map_of kvs ''draft'' of None \<Rightarrow> Draft a | Some v \<Rightarrow> v = ''true'')"
  using assms
proof (induction kvs arbitrary: a)
  case Nil
  then show ?case by simp
next
  case (Cons kv kvs)
  obtain k v where kv: "kv = (k, v)" by (cases kv)
  from Cons.prems(2) obtain a1 where
    a1: "ReadArticle_field env a k v = Inr a1" and rest: "ReadArticle_loop env a1 kvs = Inr a'"
    by (auto simp: kv split: sum.splits)
  have ih: "Draft a' = (case map_of kvs ''draft'' of None \<Rightarrow> Draft a1 | Some v \<Rightarrow> v = ''true'')"
    using Cons.IH [OF _ rest] Cons.prems(1) by simp
  show ?case
  proof (cases "k = ''draft''")
    case True
    with Cons.prems(1) kv have "''draft'' \<notin> fst ` set kvs" by auto
    then have none: "map_of kvs ''draft'' = None"
      by (simp add: map_of_eq_None_iff)
    with ih have same: "Draft a' = Draft a1" by simp
    from a1 True have "a1 = a\<lparr>Draft := (v = ''true'')\<rparr>"
      by (simp add: field_draft)
    with same True kv show ?thesis by simp
  next
    case False
    then have "Draft a1 = Draft a"
      using a1 by (rule field_other_draft)
    with ih False kv show ?thesis
      by (simp split: option.splits)
  qed
qed

lemma loop_error:
  assumes "ReadArticle_loop env a kvs = Inl e"
  shows "\<exists>k v. (k, v) \<in> set kvs \<and> (k = ''date'' \<or> k = ''updated'') \<and> parseDate env v = Inl e"
  using assms
proof (induction kvs arbitrary: a)
  case Nil
  then show ?case by simp
next
  case (Cons kv kvs)
  obtain k v where kv: "kv = (k, v)" by (cases kv)
  show ?case
  proof (cases "ReadArticle_field env a k v")
    case (Inl e')
    with Cons.prems kv have "e' = e" by simp
    with Inl field_error [of env a k v e] kv show ?thesis by auto
  next
    case (Inr a1)
    with Cons.prems kv have "ReadArticle_loop env a1 kvs = Inl e" by simp
    from Cons.IH [OF this] show ?thesis by auto
  qed
qed

lemma loop_unparseable:
  assumes "(k, v) \<in> set kvs" and "k = ''date'' \<or> k = ''updated''"
    and "parseDate env v = Inl e"
  shows "\<exists>e'. ReadArticle_loop env a kvs = Inl e'"
  using assms(1)
proof (induction kvs arbitrary: a)
  case Nil
  then show ?case by simp
next
  case (Cons kv kvs)
  obtain k' v' where kv: "kv = (k', v')" by (cases kv)
  show ?case
  proof (cases "ReadArticle_field env a k' v'")
    case (Inl e')
    with kv show ?thesis by simp
  next
    case (Inr a1)
    have "(k, v) \<noteq> (k', v')"
    proof
      assume "(k, v) = (k', v')"
      with Inr assms(2,3) show False
        by (auto simp: field_date field_updated)
    qed
    with Cons.prems kv have "(k, v) \<in> set kvs" by auto
    from Cons.IH [OF this, of a1] Inr kv show ?thesis by simp
  qed
qed

text \<open>No key stands twice in the map of \<open>ParseFrontMatter\<close>, and a \<open>range\<close> that visits
  every entry once reads the same map.\<close>

lemma ParseFrontMatter_loop_distinct:
  "distinct (map fst data) \<Longrightarrow> distinct (map fst (fst (ParseFrontMatter_loop data r)))"
proof (induction data r rule: ParseFrontMatter_loop.induct)
  case (1 data r)
  show ?case
    using "1.IH" "1.prems"
    by (subst ParseFrontMatter_loop.simps) (simp add: Let_def distinct_update)
qed

lemma ParseFrontMatter_distinct:
  "fst (ParseFrontMatter r) = Inr fm \<Longrightarrow> distinct (map fst fm)"
  using ParseFrontMatter_loop_distinct [of "[]" "snd (snd (ReadString r))"]
  by (auto simp: ParseFrontMatter_def Let_def split: if_splits prod.splits)

lemma visits_once_map:
  assumes "visits_once rng" and "distinct (map fst m)"
  shows "distinct (map fst (rng m))" and "map_of (rng m) = map_of m" and "set (rng m) = set m"
proof -
  from assms(1) have m: "mset (rng m) = mset m"
    by (simp add: visits_once_def)
  then have "mset (map fst (rng m)) = mset (map fst m)"
    by (metis mset_map)
  then show d: "distinct (map fst (rng m))"
    using assms(2) by (metis mset_eq_imp_distinct_iff)
  from m show s: "set (rng m) = set m"
    by (rule mset_eq_setD)
  from d assms(2) s show "map_of (rng m) = map_of m"
    by (simp add: map_of_inject_set)
qed

lemma ReadArticle_cases:
  "ReadArticle env now r =
     (case fst (ParseFrontMatter r) of
        Inl matterErr \<Rightarrow> (Inl InvalidArticleHeader, snd (ParseFrontMatter r))
      | Inr fm \<Rightarrow>
          (case ReadArticle_loop env Article_zero (range_order env fm) of
             Inl e \<Rightarrow> (Inl e, snd (ParseFrontMatter r))
           | Inr article \<Rightarrow>
               (Inr ((if DateModified article = None
                      then article\<lparr>DateModified := Some now\<rparr> else article)
                     \<lparr>RawContent := snd (ParseFrontMatter r)\<rparr>), [])))"
  by (cases "ParseFrontMatter r") (simp add: ReadArticle_def split: sum.splits)

lemma ReadArticle_success:
  assumes "fst (ReadArticle env now r) = Inr a"
  obtains fm article where "fst (ParseFrontMatter r) = Inr fm"
    and "ReadArticle_loop env Article_zero (range_order env fm) = Inr article"
    and "a = (if DateModified article = None then article\<lparr>DateModified := Some now\<rparr> else article)
               \<lparr>RawContent := snd (ParseFrontMatter r)\<rparr>"
  using assms by (auto simp: ReadArticle_cases split: sum.splits)

subsection \<open>Sorting\<close>

lemma Less_dated:
  assumes "list_all (\<lambda>a. DateModified a \<noteq> None) data" and "i < length data" and "j < length data"
  shows "Less data i j = Inr (Before (date_of (data ! j)) (date_of (data ! i)))"
proof -
  from assms have "DateModified (data ! i) \<noteq> None" "DateModified (data ! j) \<noteq> None"
    by (simp_all add: list_all_length)
  then obtain l r where "DateModified (data ! i) = Some l" "DateModified (data ! j) = Some r"
    by auto
  with assms(2,3) show ?thesis
    by (simp add: Less_def date_of_def)
qed

lemma inner_inserted:
  assumes "list_all (\<lambda>a. DateModified a \<noteq> None) (rev before @ x # ys)"
  shows "insertionSort_inner (rev before @ x # ys) (length before) = Inr (rev (inserted x before) @ ys)"
  using assms
proof (induction before arbitrary: ys)
  case Nil
  then show ?case by simp
next
  case (Cons y before)
  let ?data = "rev (y # before) @ x # ys"
  let ?j = "length before"
  have data: "?data = rev before @ y # x # ys" by simp
  have nj: "?data ! ?j = y"
    unfolding data by (simp add: nth_append)
  have nsj: "?data ! Suc ?j = x"
    unfolding data by (simp add: nth_append)
  have len: "?j < length ?data" "Suc ?j < length ?data"
    by simp_all
  have less: "Less ?data (Suc ?j) ?j = Inr (Before (date_of y) (date_of x))"
    using Less_dated [OF Cons.prems len(2) len(1)] nj nsj by simp
  have swap: "Swap ?data (Suc ?j) ?j = Inr (rev before @ x # y # ys)"
  proof -
    have "?data[Suc ?j := ?data ! ?j, ?j := ?data ! Suc ?j] = rev before @ x # y # ys"
      unfolding nj nsj unfolding data by (simp add: list_update_append)
    with len show ?thesis by (simp add: Swap_def)
  qed
  have dates: "list_all (\<lambda>a. DateModified a \<noteq> None) (rev before @ x # y # ys)"
    using Cons.prems by (auto simp: list_all_iff)
  show ?case
  proof (cases "Before (date_of y) (date_of x)")
    case True
    have "insertionSort_inner ?data (Suc ?j) = insertionSort_inner (rev before @ x # y # ys) ?j"
      using less swap True by (simp del: rev.simps)
    also have "\<dots> = Inr (rev (inserted x before) @ y # ys)"
      using dates by (rule Cons.IH)
    finally show ?thesis using True by simp
  next
    case False
    have "insertionSort_inner ?data (Suc ?j) = Inr ?data"
      using less False by (simp del: rev.simps)
    then show ?thesis using False by simp
  qed
qed

lemma length_inserted: "length (inserted x before) = Suc (length before)"
  by (induction before) simp_all

lemma mset_inserted: "mset (inserted x before) = add_mset x (mset before)"
  by (induction before) simp_all

lemma set_inserted: "set (inserted x before) = insert x (set before)"
  by (induction before) auto

lemma sorted_inserted:
  assumes "sorted_wrt (\<lambda>a b. \<not> Before (date_of b) (date_of a)) before"
  shows "sorted_wrt (\<lambda>a b. \<not> Before (date_of b) (date_of a)) (inserted x before)"
  using assms
proof (induction before)
  case Nil
  then show ?case by simp
next
  case (Cons y before)
  show ?case
  proof (cases "Before (date_of y) (date_of x)")
    case True
    have "\<not> Before (date_of z) (date_of y)" if "z \<in> set (inserted x before)" for z
      using that True Cons.prems by (auto simp: set_inserted Before_def)
    with True Cons show ?thesis by simp
  next
    case False
    have "\<not> Before (date_of z) (date_of x)" if "z \<in> set before" for z
      using that False Cons.prems by (auto simp: Before_def)
    with False Cons.prems show ?thesis by simp
  qed
qed

lemma outer_inserted:
  assumes "list_all (\<lambda>a. DateModified a \<noteq> None) (rev before @ ys)"
  shows "insertionSort (rev before @ ys) (length before) (length before + length ys)
    = Inr (rev (foldl (\<lambda>acc x. inserted x acc) before ys))"
  using assms
proof (induction ys arbitrary: before)
  case Nil
  show ?case by (subst insertionSort.simps) simp
next
  case (Cons x ys)
  have inner: "insertionSort_inner (rev before @ x # ys) (length before)
      = Inr (rev (inserted x before) @ ys)"
    using Cons.prems by (rule inner_inserted)
  have dates: "list_all (\<lambda>a. DateModified a \<noteq> None) (rev (inserted x before) @ ys)"
    using Cons.prems by (auto simp: list_all_iff set_inserted)
  have "insertionSort (rev before @ x # ys) (length before) (length before + length (x # ys))
      = insertionSort (rev (inserted x before) @ ys) (Suc (length before))
          (length before + length (x # ys))"
    by (subst insertionSort.simps) (simp add: inner)
  also have "\<dots> = insertionSort (rev (inserted x before) @ ys) (length (inserted x before))
      (length (inserted x before) + length ys)"
    by (simp add: length_inserted)
  also have "\<dots> = Inr (rev (foldl (\<lambda>acc x. inserted x acc) (inserted x before) ys))"
    using dates by (rule Cons.IH)
  finally show ?case by simp
qed

lemma short_Sort_inserted:
  assumes "list_all (\<lambda>a. DateModified a \<noteq> None) data"
  shows "short_Sort data = Inr (rev (foldl (\<lambda>acc x. inserted x acc) [] data))"
proof (cases data)
  case Nil
  then show ?thesis
    by (simp add: short_Sort_def Len_def insertionSort.simps)
next
  case (Cons x ys)
  have "insertionSort (rev [x] @ ys) (length [x]) (length [x] + length ys)
      = Inr (rev (foldl (\<lambda>acc x. inserted x acc) [x] ys))"
    using assms Cons by (intro outer_inserted) simp
  with Cons show ?thesis
    by (simp add: short_Sort_def Len_def)
qed

lemma mset_foldl_inserted: "mset (foldl (\<lambda>acc x. inserted x acc) before ys) = mset before + mset ys"
  by (induction ys arbitrary: before) (simp_all add: mset_inserted)

lemma sorted_foldl_inserted:
  "sorted_wrt (\<lambda>a b. \<not> Before (date_of b) (date_of a)) before \<Longrightarrow>
   sorted_wrt (\<lambda>a b. \<not> Before (date_of b) (date_of a)) (foldl (\<lambda>acc x. inserted x acc) before ys)"
  by (induction ys arbitrary: before) (simp_all add: sorted_inserted)

lemma most_recent_first_rev:
  "most_recent_first (rev v) = sorted_wrt (\<lambda>a b. \<not> Before (date_of b) (date_of a)) v"
  by (simp add: most_recent_first_def sorted_wrt_rev)

text \<open>The order of the contract of \<open>sort.Sort\<close> is the order \<open>most_recent_first\<close>, and that
  is the order \<open>later_first\<close>.\<close>

lemma Less_order:
  assumes "list_all (\<lambda>a. DateModified a \<noteq> None) out"
  shows "(\<forall>i j. i < j \<and> j < Len out \<longrightarrow> Less out j i = Inr False) \<longleftrightarrow> most_recent_first out"
proof -
  have "Less out j i = Inr False \<longleftrightarrow> \<not> Before (date_of (out ! i)) (date_of (out ! j))"
    if "i < j" and "j < length out" for i j
    using Less_dated [OF assms, of j i] that by simp
  then show ?thesis
    unfolding most_recent_first_def Len_def sorted_wrt_iff_nth_less by blast
qed

lemma most_recent_later_first: "most_recent_first v \<Longrightarrow> later_first v"
proof -
  assume s: "most_recent_first v"
  have "i < j" if "i < length v" and "j < length v"
    and b: "Before (date_of (v ! j)) (date_of (v ! i))" for i j
  proof (rule ccontr)
    assume "\<not> i < j"
    then have "j < i \<or> j = i" by auto
    then show False
    proof
      assume "j < i"
      with s that(1) have "\<not> Before (date_of (v ! j)) (date_of (v ! i))"
        by (simp add: most_recent_first_def sorted_wrt_iff_nth_less)
      with b show False by simp
    next
      assume "j = i"
      with b show False by (simp add: Before_def)
    qed
  qed
  then show ?thesis
    by (simp add: later_first_def)
qed

lemma most_recent_filter: "most_recent_first v \<Longrightarrow> most_recent_first (filter P v)"
  by (simp add: most_recent_first_def sorted_wrt_filter)

lemma dated_mset:
  assumes "mset out = mset data" and "list_all (\<lambda>a. DateModified a \<noteq> None) data"
  shows "list_all (\<lambda>a. DateModified a \<noteq> None) out"
proof -
  from assms(1) have "set out = set data" by (rule mset_eq_setD)
  with assms(2) show ?thesis by (simp add: list_all_iff)
qed

lemma sorts_by_LessD:
  assumes "sorts_by_Less srt" and "list_all (\<lambda>a. DateModified a \<noteq> None) data"
  obtains out where "srt data = Inr out" and "mset out = mset data" and "most_recent_first out"
    and "list_all (\<lambda>a. DateModified a \<noteq> None) out"
proof -
  from assms obtain out where o: "srt data = Inr out" "mset out = mset data"
    and l: "\<forall>i j. i < j \<and> j < Len out \<longrightarrow> Less out j i = Inr False"
    unfolding sorts_by_Less_def by blast
  have d: "list_all (\<lambda>a. DateModified a \<noteq> None) out"
    using o(2) assms(2) by (rule dated_mset)
  with l have m: "most_recent_first out"
    by (simp add: Less_order)
  show ?thesis by (rule that [OF o(1) o(2) m d])
qed

text \<open>The insertion sort keeps the contract of \<open>sort.Sort\<close>.\<close>

lemma short_Sort_sorts: "sorts_by_Less short_Sort"
proof -
  have "\<exists>out. short_Sort data = Inr out \<and> mset out = mset data \<and>
           (\<forall>i j. i < j \<and> j < Len out \<longrightarrow> Less out j i = Inr False)"
    if d: "list_all (\<lambda>a. DateModified a \<noteq> None) data" for data
  proof -
    let ?out = "rev (foldl (\<lambda>acc x. inserted x acc) [] data)"
    have s: "short_Sort data = Inr ?out"
      using d by (rule short_Sort_inserted)
    have m: "mset ?out = mset data"
      by (simp add: mset_foldl_inserted)
    have "most_recent_first ?out"
      unfolding most_recent_first_rev by (rule sorted_foldl_inserted) simp
    moreover have "list_all (\<lambda>a. DateModified a \<noteq> None) ?out"
      using m d by (rule dated_mset)
    ultimately have "\<forall>i j. i < j \<and> j < Len ?out \<longrightarrow> Less ?out j i = Inr False"
      by (simp add: Less_order)
    with s m show ?thesis by blast
  qed
  then show ?thesis
    unfolding sorts_by_Less_def by blast
qed

subsection \<open>The views of a run\<close>

lemma generate_sourceFile_cases:
  "generate_sourceFile env k sourceFile st =
     (case os_Open env (pf_Path sourceFile) of
        Inl fileError \<Rightarrow>
          st\<lparr>logged := logged st @ [SkippingOpen (pf_Path sourceFile) fileError]\<rparr>
      | Inr file \<Rightarrow>
          (case fst (ReadArticle env (time_Now env k) file) of
             Inl readErr \<Rightarrow>
               st\<lparr>logged := logged st @ [SkippingParse (pf_Path sourceFile) readErr]\<rparr>
           | Inr article \<Rightarrow> classify (prepared env sourceFile article) st))"
  by (simp add: generate_sourceFile_def prepared_def Let_def split: sum.splits)

lemma main_sourceFile_classify:
  "main_sourceFile env sourceFile article st = classify (main_prepared env sourceFile article) st"
  by (simp add: main_sourceFile_def main_prepared_def Let_def)

lemma Post_not_Page: "Post \<noteq> Page" "Snippet \<noteq> Page" "Post \<noteq> Snippet"
  by (simp_all add: Post_def Page_def Snippet_def)

lemma classify_views:
  "articles (classify a st) = articles st @ [a]"
  "indexArticles (classify a st) = indexArticles st @ filter (\<lambda>a. Type a \<noteq> Page \<and> \<not> Draft a) [a]"
  "feedArticles (classify a st) = feedArticles st @ filter (\<lambda>a. Type a = Post \<and> \<not> Draft a) [a]"
  "snippetArticles (classify a st)
     = snippetArticles st @ filter (\<lambda>a. Type a = Snippet \<and> \<not> Draft a) [a]"
  "logged (classify a st) = logged st"
  using Post_not_Page by (auto simp: classify_def Let_def)

lemma generate_loop_views:
  "articles (generate_loop env k files st) = articles st @ parsed env k files"
  "indexArticles (generate_loop env k files st)
     = indexArticles st @ filter (\<lambda>a. Type a \<noteq> Page \<and> \<not> Draft a) (parsed env k files)"
  "feedArticles (generate_loop env k files st)
     = feedArticles st @ filter (\<lambda>a. Type a = Post \<and> \<not> Draft a) (parsed env k files)"
  "snippetArticles (generate_loop env k files st)
     = snippetArticles st @ filter (\<lambda>a. Type a = Snippet \<and> \<not> Draft a) (parsed env k files)"
  "logged (generate_loop env k files st) = logged st @ warnings env k files"
proof (induction files arbitrary: k st)
  case Nil
  {
    case 1 show ?case by simp
  next
    case 2 show ?case by simp
  next
    case 3 show ?case by simp
  next
    case 4 show ?case by simp
  next
    case 5 show ?case by simp
  }
next
  case (Cons f files)
  {
    case 1 show ?case
      by (simp add: Cons.IH(1) generate_sourceFile_cases classify_views split: sum.splits)
  next
    case 2 show ?case
      by (simp add: Cons.IH(2) generate_sourceFile_cases classify_views split: sum.splits)
  next
    case 3 show ?case
      by (simp add: Cons.IH(3) generate_sourceFile_cases classify_views split: sum.splits)
  next
    case 4 show ?case
      by (simp add: Cons.IH(4) generate_sourceFile_cases classify_views split: sum.splits)
  next
    case 5 show ?case
      by (simp add: Cons.IH(5) generate_sourceFile_cases classify_views split: sum.splits)
  }
qed

lemma main_loop_views:
  "articles (main_loop env sources st)
     = articles st @ map (\<lambda>(f, a). main_prepared env f a) sources"
  "indexArticles (main_loop env sources st)
     = indexArticles st @ filter (\<lambda>a. Type a \<noteq> Page \<and> \<not> Draft a)
         (map (\<lambda>(f, a). main_prepared env f a) sources)"
  "feedArticles (main_loop env sources st)
     = feedArticles st @ filter (\<lambda>a. Type a = Post \<and> \<not> Draft a)
         (map (\<lambda>(f, a). main_prepared env f a) sources)"
  "snippetArticles (main_loop env sources st)
     = snippetArticles st @ filter (\<lambda>a. Type a = Snippet \<and> \<not> Draft a)
         (map (\<lambda>(f, a). main_prepared env f a) sources)"
proof (induction sources arbitrary: st)
  case Nil
  {
    case 1 show ?case by simp
  next
    case 2 show ?case by simp
  next
    case 3 show ?case by simp
  next
    case 4 show ?case by simp
  }
next
  case (Cons fa sources)
  obtain f a where fa: "fa = (f, a)" by (cases fa)
  {
    case 1 show ?case
      by (simp add: fa Cons.IH(1) main_sourceFile_classify classify_views)
  next
    case 2 show ?case
      by (simp add: fa Cons.IH(2) main_sourceFile_classify classify_views)
  next
    case 3 show ?case
      by (simp add: fa Cons.IH(3) main_sourceFile_classify classify_views)
  next
    case 4 show ?case
      by (simp add: fa Cons.IH(4) main_sourceFile_classify classify_views)
  }
qed

lemma prepared_fields:
  "DateModified (prepared env f a) \<noteq> None"
  "Type (prepared env f a) = Type a"
  "Draft (prepared env f a) = Draft a"
  "Tags (prepared env f a) = Tags a"
  "Filename (prepared env f a) = pf_Name f @ destinationExt env"
  "Identifier (prepared env f a) = pf_Name f"
  "DateModified a \<noteq> None \<Longrightarrow> DateModified (prepared env f a) = DateModified a"
  by (simp_all add: prepared_def Let_def)

lemma main_prepared_fields:
  "DateModified (main_prepared env f a) \<noteq> None"
  "Type (main_prepared env f a) = Type a"
  "Draft (main_prepared env f a) = (Draft a \<or> HasSuffix (pf_Name f) ''draft'')"
  by (simp_all add: main_prepared_def Let_def)

lemma parsed_dated: "list_all (\<lambda>a. DateModified a \<noteq> None) (parsed env k files)"
  by (induction files arbitrary: k)
    (simp_all del: not_None_eq add: prepared_fields split: sum.splits)

lemma parsed_append:
  "parsed env k (pre @ post) = parsed env k pre @ parsed env (k + length pre) post"
  by (induction pre arbitrary: k) (simp_all split: sum.splits)

lemma warnings_append:
  "warnings env k (pre @ post) = warnings env k pre @ warnings env (k + length pre) post"
  by (induction pre arbitrary: k) (simp_all split: sum.splits)

lemma BasePath_dated: "DateModified a \<noteq> None \<Longrightarrow> \<exists>b. BasePath a = Inr b"
  by (auto simp: BasePath_def datedPath_def)

lemma FullPath_dated: "DateModified a \<noteq> None \<Longrightarrow> \<exists>p. FullPath a = Inr p"
  using BasePath_dated [of a] by (auto simp: FullPath_def)

lemma articleFiles_dated:
  "list_all (\<lambda>a. DateModified a \<noteq> None) v \<Longrightarrow>
     \<exists>fs. articleFiles v = Inr fs \<and> map snd fs = v \<and> list_all (\<lambda>(p, a). FullPath a = Inr p) fs"
proof (induction v)
  case Nil
  then show ?case by simp
next
  case (Cons a v)
  then obtain fs where fs: "articleFiles v = Inr fs" "map snd fs = v"
      "list_all (\<lambda>(p, a). FullPath a = Inr p) fs"
    by auto
  from Cons.prems obtain p where "FullPath a = Inr p"
    using FullPath_dated [of a] by auto
  with fs show ?case by simp
qed

text \<open>When \<open>sort.Sort\<close> keeps its contract, \<open>generate\<close> ends, and the site is the following.\<close>

lemma generate_site:
  assumes "sorts_by_Less (sort_Sort env)"
  obtains site where "generate env files = Inr site"
    and "mset (All site) = mset (parsed env 0 files)"
    and "mset (Index site) = mset (filter (\<lambda>a. Type a \<noteq> Page \<and> \<not> Draft a) (parsed env 0 files))"
    and "mset (Feed site) = mset (filter (\<lambda>a. Type a = Post \<and> \<not> Draft a) (parsed env 0 files))"
    and "mset (SnippetFeed site)
           = mset (filter (\<lambda>a. Type a = Snippet \<and> \<not> Draft a) (parsed env 0 files))"
    and "most_recent_first (All site)" and "most_recent_first (Index site)"
    and "most_recent_first (Feed site)" and "most_recent_first (SnippetFeed site)"
    and "map snd (ArticleFiles site) = All site"
    and "list_all (\<lambda>(p, a). FullPath a = Inr p) (ArticleFiles site)"
    and "TagIndexes site
           = map (\<lambda>(tag, present). tagIndex env (Index site) tag)
               (range_tags env (collectTags (All site) []))"
    and "Warnings site = warnings env 0 files"
proof -
  let ?st = "generate_loop env 0 files Views_empty"
  let ?ps = "parsed env 0 files"
  have v: "articles ?st = ?ps"
      "indexArticles ?st = filter (\<lambda>a. Type a \<noteq> Page \<and> \<not> Draft a) ?ps"
      "feedArticles ?st = filter (\<lambda>a. Type a = Post \<and> \<not> Draft a) ?ps"
      "snippetArticles ?st = filter (\<lambda>a. Type a = Snippet \<and> \<not> Draft a) ?ps"
      "logged ?st = warnings env 0 files"
    by (simp_all add: generate_loop_views Views_empty_def)
  have d: "list_all (\<lambda>a. DateModified a \<noteq> None) ?ps"
    by (rule parsed_dated)
  then have df: "list_all (\<lambda>a. DateModified a \<noteq> None) (filter P ?ps)" for P
    by (simp add: list_all_iff)
  from assms d obtain sa where sa: "sort_Sort env (articles ?st) = Inr sa"
      "mset sa = mset ?ps" "most_recent_first sa" "list_all (\<lambda>a. DateModified a \<noteq> None) sa"
    unfolding v(1) by (rule sorts_by_LessD)
  from assms df obtain si where si: "sort_Sort env (indexArticles ?st) = Inr si"
      "mset si = mset (filter (\<lambda>a. Type a \<noteq> Page \<and> \<not> Draft a) ?ps)" "most_recent_first si"
    unfolding v(2) by (rule sorts_by_LessD)
  from assms df obtain sf where sf: "sort_Sort env (feedArticles ?st) = Inr sf"
      "mset sf = mset (filter (\<lambda>a. Type a = Post \<and> \<not> Draft a) ?ps)" "most_recent_first sf"
    unfolding v(3) by (rule sorts_by_LessD)
  from assms df obtain ss where ss: "sort_Sort env (snippetArticles ?st) = Inr ss"
      "mset ss = mset (filter (\<lambda>a. Type a = Snippet \<and> \<not> Draft a) ?ps)" "most_recent_first ss"
    unfolding v(4) by (rule sorts_by_LessD)
  from sa(4) obtain fs where fs: "articleFiles sa = Inr fs" "map snd fs = sa"
      "list_all (\<lambda>(p, a). FullPath a = Inr p) fs"
    using articleFiles_dated by blast
  let ?site = "\<lparr>All = sa, Index = si, Feed = sf, SnippetFeed = ss, ArticleFiles = fs,
      TagIndexes = map (\<lambda>(tag, present). tagIndex env si tag) (range_tags env (collectTags sa [])),
      Warnings = logged ?st\<rparr>"
  have g: "generate env files = Inr ?site"
    by (simp add: generate_def Let_def sa(1) si(1) sf(1) ss(1) fs(1))
  show ?thesis
    by (rule that [of ?site]) (simp_all add: g sa si sf ss fs v(5))
qed

subsection \<open>The tags of a run\<close>

lemma update_tags_keys:
  "fst ` set (foldl (\<lambda>m tag. AList.update (Name tag) True m) m tags)
     = fst ` set m \<union> Name ` set tags"
  by (induction tags arbitrary: m) (auto simp: dom_update)

lemma update_tags_distinct:
  "distinct (map fst m) \<Longrightarrow>
     distinct (map fst (foldl (\<lambda>m tag. AList.update (Name tag) True m) m tags))"
  by (induction tags arbitrary: m) (simp_all add: distinct_update)

lemma collectTags_keys:
  "fst ` set (collectTags v m) = fst ` set m \<union> (\<Union>a \<in> set v. Name ` set (Tags a))"
  by (induction v arbitrary: m) (auto simp: update_tags_keys)

lemma collectTags_distinct:
  "distinct (map fst m) \<Longrightarrow> distinct (map fst (collectTags v m))"
  by (induction v arbitrary: m) (simp_all add: update_tags_distinct)

subsection \<open>The sample environment\<close>

lemma sample_env_contract:
  "sorts_by_Less (sort_Sort sample_env)"
  "visits_once (range_order sample_env)"
  "visits_once (range_tags sample_env)"
  by (simp_all add: sample_env_def short_Sort_sorts visits_once_def)

subsection \<open>The type and the date of an article\<close>

text \<open>
  Claim C8. The type of the article that \<open>ReadArticle\<close> returns. A \<open>type\<close> header whose
  value is exactly \<open>Post\<close>, \<open>Page\<close> or \<open>Snippet\<close> gives that type. Without a \<open>type\<close> header,
  and with any other value, the type stays the zero value of \<open>PageType\<close>, the empty
  string: it is none of the three, and so it is not \<open>Post\<close>.
\<close>

theorem ReadArticle_type:
  assumes "visits_once (range_order env)" and "fst (ReadArticle env now r) = Inr a"
  shows "\<exists>fm. fst (ParseFrontMatter r) = Inr fm
     \<and> Type a = (case map_of fm ''type'' of
                   None \<Rightarrow> []
                 | Some v \<Rightarrow> if v = ''Post'' \<or> v = ''Page'' \<or> v = ''Snippet'' then v else [])
     \<and> (map_of fm ''type'' = Some ''Post'' \<longrightarrow> Type a = Post)
     \<and> (map_of fm ''type'' = Some ''Page'' \<longrightarrow> Type a = Page)
     \<and> (map_of fm ''type'' = Some ''Snippet'' \<longrightarrow> Type a = Snippet)
     \<and> (map_of fm ''type'' \<noteq> Some ''Post'' \<and> map_of fm ''type'' \<noteq> Some ''Page''
          \<and> map_of fm ''type'' \<noteq> Some ''Snippet'' \<longrightarrow>
          Type a = [] \<and> Type a \<noteq> Post \<and> Type a \<noteq> Page \<and> Type a \<noteq> Snippet)"
proof -
  from assms(2) obtain fm article where fm: "fst (ParseFrontMatter r) = Inr fm"
    and loop: "ReadArticle_loop env Article_zero (range_order env fm) = Inr article"
    and a: "a = (if DateModified article = None then article\<lparr>DateModified := Some now\<rparr>
                 else article)\<lparr>RawContent := snd (ParseFrontMatter r)\<rparr>"
    by (rule ReadArticle_success)
  have d: "distinct (map fst fm)"
    using fm by (rule ParseFrontMatter_distinct)
  note v = visits_once_map [OF assms(1) d]
  have z: "Type Article_zero = []"
    by (simp add: Article_zero_def)
  have "Type article =
     (case map_of (range_order env fm) ''type'' of
        None \<Rightarrow> Type Article_zero
      | Some v \<Rightarrow> if v = ''Post'' \<or> v = ''Page'' \<or> v = ''Snippet'' then v else Type Article_zero)"
    using v(1) loop by (rule loop_type)
  moreover have "Type a = Type article"
    unfolding a by simp
  ultimately have t: "Type a =
     (case map_of fm ''type'' of
        None \<Rightarrow> []
      | Some v \<Rightarrow> if v = ''Post'' \<or> v = ''Page'' \<or> v = ''Snippet'' then v else [])"
    unfolding z v(2) by simp
  have "(map_of fm ''type'' = Some ''Post'' \<longrightarrow> Type a = Post)
     \<and> (map_of fm ''type'' = Some ''Page'' \<longrightarrow> Type a = Page)
     \<and> (map_of fm ''type'' = Some ''Snippet'' \<longrightarrow> Type a = Snippet)
     \<and> (map_of fm ''type'' \<noteq> Some ''Post'' \<and> map_of fm ''type'' \<noteq> Some ''Page''
          \<and> map_of fm ''type'' \<noteq> Some ''Snippet'' \<longrightarrow>
          Type a = [] \<and> Type a \<noteq> Post \<and> Type a \<noteq> Page \<and> Type a \<noteq> Snippet)"
    unfolding t by (auto simp: Post_def Page_def Snippet_def split: option.splits)
  with fm t show ?thesis by blast
qed

theorem ReadArticle_type_witness:
  "(\<exists>a. fst (ReadArticle sample_env (sample_Now 1) note_md) = Inr a
        \<and> fst (ParseFrontMatter note_md)
            = Inr [(''title'', ''Note''), (''date'', ''2024-03-01T09:30:00Z''), (''tags'', ''go'')]
        \<and> Type a = [] \<and> Type a \<noteq> Post)
   \<and> (\<exists>a. fst (ReadArticle sample_env (sample_Now 1) untyped_md) = Inr a
        \<and> fst (ParseFrontMatter untyped_md) = Inr [(''title'', ''Lower''), (''type'', ''post'')]
        \<and> Type a = [] \<and> Type a \<noteq> Post)
   \<and> (\<exists>a. fst (ReadArticle sample_env (sample_Now 1) hello_md) = Inr a \<and> Type a = Post)"
proof -
  note c = sample_env_contract(2)
  have p1: "fst (ParseFrontMatter note_md)
      = Inr [(''title'', ''Note''), (''date'', ''2024-03-01T09:30:00Z''), (''tags'', ''go'')]"
    by code_simp
  have p2: "fst (ParseFrontMatter untyped_md) = Inr [(''title'', ''Lower''), (''type'', ''post'')]"
    by code_simp
  have p3: "map_of (case fst (ParseFrontMatter hello_md) of Inr fm \<Rightarrow> fm) ''type'' = Some ''Post''"
    by code_simp
  have e1: "case fst (ReadArticle sample_env (sample_Now 1) note_md) of
              Inl e \<Rightarrow> False | Inr a \<Rightarrow> True"
    by code_simp
  have e2: "case fst (ReadArticle sample_env (sample_Now 1) untyped_md) of
              Inl e \<Rightarrow> False | Inr a \<Rightarrow> True"
    by code_simp
  have e3: "case fst (ReadArticle sample_env (sample_Now 1) hello_md) of
              Inl e \<Rightarrow> False | Inr a \<Rightarrow> True"
    by code_simp
  from e1 obtain a1 where a1: "fst (ReadArticle sample_env (sample_Now 1) note_md) = Inr a1"
    by (auto split: sum.splits)
  from e2 obtain a2 where a2: "fst (ReadArticle sample_env (sample_Now 1) untyped_md) = Inr a2"
    by (auto split: sum.splits)
  from e3 obtain a3 where a3: "fst (ReadArticle sample_env (sample_Now 1) hello_md) = Inr a3"
    by (auto split: sum.splits)
  have t1: "Type a1 = [] \<and> Type a1 \<noteq> Post"
    using ReadArticle_type [OF c a1] p1 by auto
  have t2: "Type a2 = [] \<and> Type a2 \<noteq> Post"
    using ReadArticle_type [OF c a2] p2 by auto
  have t3: "Type a3 = Post"
    using ReadArticle_type [OF c a3] p3 by auto
  from a1 a2 a3 t1 t2 t3 p1 p2 show ?thesis by blast
qed

text \<open>
  Claim C4. An article that \<open>ReadArticle\<close> returns has a date. When the header has a \<open>date\<close>
  key, the date is the time that \<open>time.Parse\<close> reads from its value, with the first of the
  two formats that accepts the value; when the header has none, the date is the reading
  of the clock. So the run keeps this date, finds the output path of the article, and
  compares any two articles that it has read; and when \<open>sort.Sort\<close> keeps its contract,
  \<open>generate\<close> ends without a nil pointer dereference.
\<close>

theorem ReadArticle_sets_date:
  assumes "fst (ReadArticle env now r) = Inr a"
  shows "DateModified a \<noteq> None
   \<and> (visits_once (range_order env) \<longrightarrow>
        (\<exists>fm. fst (ParseFrontMatter r) = Inr fm \<and>
           (case map_of fm ''date'' of
              None \<Rightarrow> DateModified a = Some now
            | Some v \<Rightarrow>
                \<exists>t. DateModified a = Some t \<and>
                  (time_Parse env DefaultDateFormat v = Some t
                   \<or> time_Parse env DefaultDateFormat v = None
                      \<and> time_Parse env IFTTTDateFormat v = Some t))))
   \<and> DateModified (prepared env sourceFile a) = DateModified a
   \<and> (\<exists>p. FullPath (prepared env sourceFile a) = Inr p)
   \<and> list_all (\<lambda>x. DateModified x \<noteq> None) (parsed env k files)
   \<and> (\<forall>i j. i < length (parsed env k files) \<and> j < length (parsed env k files) \<longrightarrow>
         (\<exists>l. Less (parsed env k files) i j = Inr l))
   \<and> (sorts_by_Less (sort_Sort env) \<longrightarrow> (\<exists>site. generate env files = Inr site))"
proof -
  from assms obtain fm article where fm: "fst (ParseFrontMatter r) = Inr fm"
    and loop: "ReadArticle_loop env Article_zero (range_order env fm) = Inr article"
    and a: "a = (if DateModified article = None then article\<lparr>DateModified := Some now\<rparr>
                 else article)\<lparr>RawContent := snd (ParseFrontMatter r)\<rparr>"
    by (rule ReadArticle_success)
  have da: "DateModified a = (if DateModified article = None then Some now else DateModified article)"
    unfolding a by simp
  then have c1: "DateModified a \<noteq> None"
    by (simp del: not_None_eq)
  have c2: "\<exists>fm. fst (ParseFrontMatter r) = Inr fm \<and>
           (case map_of fm ''date'' of
              None \<Rightarrow> DateModified a = Some now
            | Some v \<Rightarrow>
                \<exists>t. DateModified a = Some t \<and>
                  (time_Parse env DefaultDateFormat v = Some t
                   \<or> time_Parse env DefaultDateFormat v = None
                      \<and> time_Parse env IFTTTDateFormat v = Some t))"
    if vo: "visits_once (range_order env)"
  proof -
    have d: "distinct (map fst fm)"
      using fm by (rule ParseFrontMatter_distinct)
    note v = visits_once_map [OF vo d]
    have l: "case map_of (range_order env fm) ''date'' of
           None \<Rightarrow> DateModified article = DateModified Article_zero
         | Some v \<Rightarrow> \<exists>t. parseDate env v = Inr t \<and> DateModified article = Some t"
      using v(1) loop by (rule loop_date)
    have "case map_of fm ''date'' of
              None \<Rightarrow> DateModified a = Some now
            | Some v \<Rightarrow>
                \<exists>t. DateModified a = Some t \<and>
                  (time_Parse env DefaultDateFormat v = Some t
                   \<or> time_Parse env DefaultDateFormat v = None
                      \<and> time_Parse env IFTTTDateFormat v = Some t)"
    proof (cases "map_of fm ''date''")
      case None
      with l have "DateModified article = None"
        by (simp add: v(2) Article_zero_def)
      with da None show ?thesis by simp
    next
      case (Some v)
      with l obtain t where t: "parseDate env v = Inr t" "DateModified article = Some t"
        by (auto simp: v(2))
      from t(1) have "time_Parse env DefaultDateFormat v = Some t
          \<or> time_Parse env DefaultDateFormat v = None \<and> time_Parse env IFTTTDateFormat v = Some t"
        by (auto simp: parseDate_def split: option.splits)
      with da t(2) Some show ?thesis by simp
    qed
    with fm show ?thesis by blast
  qed
  have c3: "DateModified (prepared env sourceFile a) = DateModified a"
    using c1 by (rule prepared_fields(7))
  have c4: "\<exists>p. FullPath (prepared env sourceFile a) = Inr p"
    by (rule FullPath_dated) (rule prepared_fields(1))
  have c5: "list_all (\<lambda>x. DateModified x \<noteq> None) (parsed env k files)"
    by (rule parsed_dated)
  have c6: "\<exists>l. Less (parsed env k files) i j = Inr l"
    if "i < length (parsed env k files)" and "j < length (parsed env k files)" for i j
    using Less_dated [OF c5 that] by blast
  have c7: "\<exists>site. generate env files = Inr site" if "sorts_by_Less (sort_Sort env)"
    using that by (rule generate_site [of env files]) blast
  from c1 c2 c3 c4 c5 c6 c7 show ?thesis by blast
qed

theorem ReadArticle_sets_date_witness:
  "(\<exists>a. fst (ReadArticle sample_env (sample_Now 0) hello_md) = Inr a
        \<and> map_of [(''title'', ''Hello''), (''type'', ''Post''),
              (''date'', ''2024-01-15T10:00:00Z''), (''tags'', ''Go, -wip'')] ''date''
            = Some ''2024-01-15T10:00:00Z''
        \<and> time_Parse sample_env DefaultDateFormat ''2024-01-15T10:00:00Z'' = Some jan15
        \<and> DateModified a = Some jan15
        \<and> FullPath (prepared sample_env (sample_file ''hello'') a) = Inr ''2024/01/hello.html'')
   \<and> (\<exists>a. fst (ReadArticle sample_env (sample_Now 6) snip_md) = Inr a
        \<and> time_Parse sample_env DefaultDateFormat ''February 10, 2024 at 08:00AM'' = None
        \<and> time_Parse sample_env IFTTTDateFormat ''February 10, 2024 at 08:00AM'' = Some feb10
        \<and> DateModified a = Some feb10)
   \<and> (\<exists>a. fst (ReadArticle sample_env (sample_Now 3) about_md) = Inr a
        \<and> map_of [(''title'', ''About''), (''type'', ''Page''), (''tags'', ''site'')] ''date'' = None
        \<and> DateModified a = Some (sample_Now 3))
   \<and> length (parsed sample_env 0 sample_files) = 5
   \<and> Less (parsed sample_env 0 sample_files) 1 0 = Inr True
   \<and> (\<exists>site. generate sample_env sample_files = Inr site)"
proof -
  note c = sample_env_contract(2)
  have p1: "fst (ParseFrontMatter hello_md)
      = Inr [(''title'', ''Hello''), (''type'', ''Post''),
             (''date'', ''2024-01-15T10:00:00Z''), (''tags'', ''Go, -wip'')]"
    by code_simp
  have m1: "map_of [(''title'', ''Hello''), (''type'', ''Post''),
              (''date'', ''2024-01-15T10:00:00Z''), (''tags'', ''Go, -wip'')] ''date''
            = Some ''2024-01-15T10:00:00Z''"
    by simp
  have q1: "time_Parse sample_env DefaultDateFormat ''2024-01-15T10:00:00Z'' = Some jan15"
    by code_simp
  have p2: "fst (ParseFrontMatter snip_md)
      = Inr [(''type'', ''Snippet''), (''date'', ''February 10, 2024 at 08:00AM''),
             (''tags'', ''go'')]"
    by code_simp
  have q2: "time_Parse sample_env DefaultDateFormat ''February 10, 2024 at 08:00AM'' = None"
    "time_Parse sample_env IFTTTDateFormat ''February 10, 2024 at 08:00AM'' = Some feb10"
    by code_simp+
  have p3: "fst (ParseFrontMatter about_md)
      = Inr [(''title'', ''About''), (''type'', ''Page''), (''tags'', ''site'')]"
    by code_simp
  have m3: "map_of [(''title'', ''About''), (''type'', ''Page''), (''tags'', ''site'')] ''date'' = None"
    by simp
  have e1: "case fst (ReadArticle sample_env (sample_Now 0) hello_md) of
              Inl e \<Rightarrow> False
            | Inr a \<Rightarrow> FullPath (prepared sample_env (sample_file ''hello'') a)
                = Inr ''2024/01/hello.html''"
    by code_simp
  have e2: "case fst (ReadArticle sample_env (sample_Now 6) snip_md) of
              Inl e \<Rightarrow> False | Inr a \<Rightarrow> True"
    by code_simp
  have e3: "case fst (ReadArticle sample_env (sample_Now 3) about_md) of
              Inl e \<Rightarrow> False | Inr a \<Rightarrow> True"
    by code_simp
  from e1 obtain a1 where a1: "fst (ReadArticle sample_env (sample_Now 0) hello_md) = Inr a1"
    and f1: "FullPath (prepared sample_env (sample_file ''hello'') a1) = Inr ''2024/01/hello.html''"
    by (auto split: sum.splits)
  from e2 obtain a2 where a2: "fst (ReadArticle sample_env (sample_Now 6) snip_md) = Inr a2"
    by (auto split: sum.splits)
  from e3 obtain a3 where a3: "fst (ReadArticle sample_env (sample_Now 3) about_md) = Inr a3"
    by (auto split: sum.splits)
  have d1: "DateModified a1 = Some jan15"
    using ReadArticle_sets_date [OF a1, of "sample_file ''hello''" 0 sample_files] c p1 q1
    by auto
  have d2: "DateModified a2 = Some feb10"
    using ReadArticle_sets_date [OF a2, of "sample_file ''snip''" 0 sample_files] c p2 q2
    by auto
  have d3: "DateModified a3 = Some (sample_Now 3)"
    using ReadArticle_sets_date [OF a3, of "sample_file ''about''" 0 sample_files] c p3
    by auto
  have n: "length (parsed sample_env 0 sample_files) = 5"
    by code_simp
  have l: "Less (parsed sample_env 0 sample_files) 1 0 = Inr True"
    by code_simp
  have g: "\<exists>site. generate sample_env sample_files = Inr site"
    using ReadArticle_sets_date [OF a1, of "sample_file ''hello''" 0 sample_files]
      sample_env_contract(1) by blast
  from a1 m1 q1 d1 f1 have w1: "\<exists>a. fst (ReadArticle sample_env (sample_Now 0) hello_md) = Inr a
        \<and> map_of [(''title'', ''Hello''), (''type'', ''Post''),
              (''date'', ''2024-01-15T10:00:00Z''), (''tags'', ''Go, -wip'')] ''date''
            = Some ''2024-01-15T10:00:00Z''
        \<and> time_Parse sample_env DefaultDateFormat ''2024-01-15T10:00:00Z'' = Some jan15
        \<and> DateModified a = Some jan15
        \<and> FullPath (prepared sample_env (sample_file ''hello'') a) = Inr ''2024/01/hello.html''"
    by blast
  from a2 q2 d2 have w2: "\<exists>a. fst (ReadArticle sample_env (sample_Now 6) snip_md) = Inr a
        \<and> time_Parse sample_env DefaultDateFormat ''February 10, 2024 at 08:00AM'' = None
        \<and> time_Parse sample_env IFTTTDateFormat ''February 10, 2024 at 08:00AM'' = Some feb10
        \<and> DateModified a = Some feb10"
    by blast
  from a3 m3 d3 have w3: "\<exists>a. fst (ReadArticle sample_env (sample_Now 3) about_md) = Inr a
        \<and> map_of [(''title'', ''About''), (''type'', ''Page''), (''tags'', ''site'')] ''date'' = None
        \<and> DateModified a = Some (sample_Now 3)"
    by blast
  from w1 w2 w3 n l g show ?thesis by (intro conjI)
qed

end
